theory Spec2Isabelle
  imports Complex_Main "HOL-Library.Word"
begin

section \<open>Images and colour conversion\<close>

text \<open>
  An image returned by \<^verbatim>\<open>cv2.imread\<close> is an array of shape (height, width, 3) of
  unsigned 8-bit channels in B, G, R order. The pixel data is kept in row-major order,
  which is the order \<^verbatim>\<open>reshape(-1, 3)\<close> produces. \<^verbatim>\<open>imread\<close> returning
  \<^verbatim>\<open>None\<close> is the value \<open>None\<close>.
\<close>

type_synonym pixel = "8 word \<times> 8 word \<times> 8 word"

record image =
  height :: nat
  width :: nat
  data :: "pixel list"

definition wf_image :: "image \<Rightarrow> bool" where
  "wf_image img \<longleftrightarrow> length (data img) = height img * width img"

text \<open>\<^verbatim>\<open>cv2.cvtColor(img, cv2.COLOR_BGR2RGB)\<close>: the channels are swapped.\<close>

fun bgr2rgb :: "pixel \<Rightarrow> pixel" where
  "bgr2rgb (b, g, r) = (r, g, b)"

text \<open>
  \<^verbatim>\<open>cv2.cvtColor(img, cv2.COLOR_BGR2HSV)\<close> on 8-bit data, as the library computes it.
  With \<open>v\<close> the largest and \<open>vmin\<close> the smallest channel and \<open>diff = v - vmin\<close>, the
  result is V = \<open>v\<close>, S = 255 * diff / v and H = half the hue angle in degrees (so that
  H is below 180), where the two quotients are formed in fixed point with 12
  fractional bits: \<open>sdiv_table i\<close> is \<open>255 * 4096 / i\<close> and \<open>hdiv_table180 i\<close> is
  \<open>180 * 4096 / (6 * i)\<close>, each rounded to the nearest integer (no tie occurs for
  \<open>i\<close> below 256) and 0 for \<open>i = 0\<close>; a product with a table entry is rounded by adding
  2048 and shifting right by 12, which on integers is the floor of the division by
  4096. The hue is taken in the sector of the largest channel, red first, then green,
  and a negative hue is raised by 180.
\<close>

definition sdiv_table :: "nat \<Rightarrow> int" where
  "sdiv_table i = (if i = 0 then 0 else (2 * 1044480 + int i) div (2 * int i))"

definition hdiv_table180 :: "nat \<Rightarrow> int" where
  "hdiv_table180 i = (if i = 0 then 0 else (2 * 122880 + int i) div (2 * int i))"

definition saturate_uchar :: "int \<Rightarrow> nat" where
  "saturate_uchar x = nat (max 0 (min 255 x))"

definition hue_sector :: "int \<Rightarrow> int \<Rightarrow> int \<Rightarrow> int \<Rightarrow> int \<Rightarrow> int" where
  "hue_sector b g r v diff =
     (if v = r then g - b
      else if v = g then b - r + 2 * diff
      else r - g + 4 * diff)"

definition hue_wrap :: "int \<Rightarrow> int" where
  "hue_wrap h = (if h < 0 then h + 180 else h)"

definition hsv_of_range :: "int \<Rightarrow> int \<Rightarrow> int \<Rightarrow> int \<Rightarrow> int \<Rightarrow> nat \<times> nat \<times> nat" where
  "hsv_of_range b g r v vmin =
     (saturate_uchar
        (hue_wrap ((hue_sector b g r v (v - vmin) * hdiv_table180 (nat (v - vmin)) + 2048) div 4096)),
      nat (((v - vmin) * sdiv_table (nat v) + 2048) div 4096),
      nat v)"

fun bgr2hsv :: "pixel \<Rightarrow> nat \<times> nat \<times> nat" where
  "bgr2hsv (pb, pg, pr) =
     hsv_of_range (uint pb) (uint pg) (uint pr)
       (max (max (uint pb) (uint pg)) (uint pr)) (min (min (uint pb) (uint pg)) (uint pr))"

text \<open>
  \<^verbatim>\<open>cv2.inRange(hsv, [0, 0, 180], [180, 30, 255])\<close>: the mask is set where every
  channel lies between the two bounds, both inclusive.
\<close>

fun in_white_range :: "nat \<times> nat \<times> nat \<Rightarrow> bool" where
  "in_white_range (h, s, v) \<longleftrightarrow>
     0 \<le> h \<and> h \<le> 180 \<and> 0 \<le> s \<and> s \<le> 30 \<and> 180 \<le> v \<and> v \<le> 255"

definition white_mask :: "image \<Rightarrow> bool list" where
  "white_mask img = map (\<lambda>p. in_white_range (bgr2hsv p)) (data img)"

definition white_pixels :: "image \<Rightarrow> nat" where
  "white_pixels img = length (filter (\<lambda>m. m) (white_mask img))"

section \<open>Dominant colours\<close>

text \<open>
  \<^verbatim>\<open>colorsys.rgb_to_hsv\<close> of the standard library. The division by \<open>maxc\<close> is
  reached only when \<open>minc \<noteq> maxc\<close>; for the non-negative arguments passed here that
  implies \<open>maxc > 0\<close>. The final \<^verbatim>\<open>% 1.0\<close> is the fractional part.
\<close>

definition rgb_to_hsv :: "real \<Rightarrow> real \<Rightarrow> real \<Rightarrow> real \<times> real \<times> real" where
  "rgb_to_hsv r g b =
     (let maxc = max (max r g) b;
          minc = min (min r g) b;
          rangec = maxc - minc;
          v = maxc
      in if minc = maxc then (0, 0, v)
         else
           let s = rangec / maxc;
               rc = (maxc - r) / rangec;
               gc = (maxc - g) / rangec;
               bc = (maxc - b) / rangec;
               h = (if r = maxc then bc - gc
                    else if g = maxc then 2 + rc - bc
                    else 4 + gc - rc)
           in (frac (h / 6), s, v))"

text \<open>
  A cluster centre after \<^verbatim>\<open>astype(int)\<close>: three integers (r, g, b). The centres are
  means of 8-bit samples truncated towards zero, hence naturals.
\<close>

type_synonym centre = "nat \<times> nat \<times> nat"

fun centre_hsv :: "centre \<Rightarrow> real \<times> real \<times> real" where
  "centre_hsv (r, g, b) = rgb_to_hsv (real r / 255) (real g / 255) (real b / 255)"

text \<open>First loop over the centres: the saturations are added up.\<close>

fun saturation_sum :: "centre list \<Rightarrow> real \<Rightarrow> real" where
  "saturation_sum [] acc = acc"
| "saturation_sum (c # cs) acc = saturation_sum cs (acc + fst (snd (centre_hsv c)))"

text \<open>
  Second loop over the centres: \<open>(healthy_colors, unhealthy_colors)\<close> is the pair of
  counters.
\<close>

fun is_healthy_colour :: "real \<times> real \<times> real \<Rightarrow> bool" where
  "is_healthy_colour (h, s, v) \<longleftrightarrow>
     (0.05 \<le> h \<and> h \<le> 0.2 \<and> 0.3 \<le> s \<and> s \<le> 0.8 \<and> 0.3 \<le> v \<and> v \<le> 0.7) \<or>
     (0.2 \<le> h \<and> h \<le> 0.4 \<and> 0.3 \<le> s \<and> s \<le> 0.8 \<and> 0.3 \<le> v \<and> v \<le> 0.7)"

fun is_bleached_colour :: "real \<times> real \<times> real \<Rightarrow> bool" where
  "is_bleached_colour (h, s, v) \<longleftrightarrow> s < 0.3 \<and> v > 0.7"

fun count_colours :: "centre list \<Rightarrow> nat \<times> nat \<Rightarrow> nat \<times> nat" where
  "count_colours [] acc = acc"
| "count_colours (c # cs) (healthy, unhealthy) =
     (if is_healthy_colour (centre_hsv c) then count_colours cs (healthy + 1, unhealthy)
      else if is_bleached_colour (centre_hsv c) then count_colours cs (healthy, unhealthy + 1)
      else count_colours cs (healthy, unhealthy))"

section \<open>Bleaching detection\<close>

datatype health_status =
  Unknown | Severely_Bleached | Moderately_Bleached | Mild_Stress | Watch | Healthy

datatype error = ValueError | ZeroDivisionError | EmptyImage

text \<open>
  The threshold chain of \<^verbatim>\<open>detect_bleaching\<close>: the status and the confidence before
  the final clamp.
\<close>

definition health_of :: "real \<Rightarrow> health_status \<times> real" where
  "health_of bleaching_percentage =
     (if bleaching_percentage > 40 then (Severely_Bleached, min bleaching_percentage 95)
      else if bleaching_percentage > 20 then (Moderately_Bleached, 75 + (bleaching_percentage - 20))
      else if bleaching_percentage > 10 then (Mild_Stress, 65 + (bleaching_percentage - 10))
      else if bleaching_percentage > 5 then (Watch, 60)
      else (Healthy, 95 - bleaching_percentage))"

definition white_percentage :: "image \<Rightarrow> real" where
  "white_percentage img = real (white_pixels img) / real (height img * width img)"

definition color_diversity :: "centre list \<Rightarrow> real" where
  "color_diversity colors = saturation_sum colors 0 / real (length colors)"

definition healthy_color_ratio :: "centre list \<Rightarrow> real" where
  "healthy_color_ratio colors =
     (if length colors > 0 then real (fst (count_colours colors (0, 0))) / real (length colors)
      else 0)"

definition bleaching_score :: "image \<Rightarrow> centre list \<Rightarrow> real" where
  "bleaching_score img colors =
     white_percentage img * 0.6 + (1 - color_diversity colors) * 0.2
       + (1 - healthy_color_ratio colors) * 0.2"

text \<open>The pixels handed to k-means: the first 5000 of the RGB image.\<close>

definition sample :: "image \<Rightarrow> pixel list" where
  "sample img = take 5000 (map bgr2rgb (data img))"

text \<open>
  \<^verbatim>\<open>detect_bleaching\<close>. The argument \<open>kmeans\<close> stands for
  \<^verbatim>\<open>KMeans(n_clusters=5, n_init=10, random_state=42).fit(...)\<close> followed by
  \<^verbatim>\<open>cluster_centers_.astype(int)\<close>; fitting raises \<^verbatim>\<open>ValueError\<close> on fewer
  samples than clusters, and the division by the number of centres raises
  \<^verbatim>\<open>ZeroDivisionError\<close> on zero. An array without pixels is never returned by
  \<^verbatim>\<open>imread\<close>; it is kept apart as \<open>EmptyImage\<close>, since the white ratio is
  then no number. The result is (bleaching_percentage, health_status, confidence).
\<close>

definition detect_bleaching ::
  "(pixel list \<Rightarrow> centre list) \<Rightarrow> image option \<Rightarrow> error + (real \<times> health_status \<times> real)" where
  "detect_bleaching kmeans imread =
     (case imread of
        None \<Rightarrow> Inr (0, Unknown, 0)
      | Some img \<Rightarrow>
          if height img * width img = 0 then Inl EmptyImage
          else if length (sample img) < 5 then Inl ValueError
          else
            let colors = kmeans (sample img) in
            if length colors = 0 then Inl ZeroDivisionError
            else
              let bleaching_percentage = bleaching_score img colors * 100;
                  (health_status, confidence) = health_of bleaching_percentage;
                  confidence = max 30 (min 95 confidence)
              in Inr (bleaching_percentage, health_status, confidence))"

section \<open>Morphology analysis\<close>

text \<open>
  A contour as \<^verbatim>\<open>cv2.findContours\<close> returns it: a sequence of integer points (x, y).
\<close>

type_synonym point = "int \<times> int"
type_synonym contour = "point list"

text \<open>
  \<^verbatim>\<open>cv2.contourArea\<close>: Green's formula. The loop starts with the last point as
  \<open>prev\<close> and adds \<open>prev.x * p.y - prev.y * p.x\<close> for every point; the sum is halved and
  its absolute value returned. A contour without points has area 0.
\<close>

fun area_loop :: "point \<Rightarrow> contour \<Rightarrow> real \<Rightarrow> real" where
  "area_loop prev [] a00 = a00"
| "area_loop prev (p # ps) a00 =
     area_loop p ps
       (a00 + (real_of_int (fst prev) * real_of_int (snd p)
               - real_of_int (snd prev) * real_of_int (fst p)))"

definition contourArea :: "contour \<Rightarrow> real" where
  "contourArea c = (if c = [] then 0 else \<bar>area_loop (last c) c 0 * 0.5\<bar>)"

text \<open>
  \<^verbatim>\<open>cv2.arcLength(contour, True)\<close>: the loop starts with the last point as \<open>prev\<close>
  and adds the distance from \<open>prev\<close> to every point. A contour of at most one point has
  length 0.
\<close>

definition segment_length :: "real \<Rightarrow> real \<Rightarrow> real" where
  "segment_length dx dy = sqrt (dx * dx + dy * dy)"

fun arc_loop :: "point \<Rightarrow> contour \<Rightarrow> real \<Rightarrow> real" where
  "arc_loop prev [] perimeter = perimeter"
| "arc_loop prev (p # ps) perimeter =
     arc_loop p ps
       (perimeter + segment_length (real_of_int (fst p) - real_of_int (fst prev))
                                   (real_of_int (snd p) - real_of_int (snd prev)))"

definition arcLength :: "contour \<Rightarrow> real" where
  "arcLength c = (if length c \<le> 1 then 0 else arc_loop (last c) c 0)"

text \<open>
  \<^verbatim>\<open>cv2.boundingRect\<close> of a point set: (x, y, w, h) with the smallest coordinates
  and the extent counted in pixels; all zero without points.
\<close>

fun min_list_from :: "int \<Rightarrow> int list \<Rightarrow> int" where
  "min_list_from m [] = m"
| "min_list_from m (x # xs) = min_list_from (min m x) xs"

fun max_list_from :: "int \<Rightarrow> int list \<Rightarrow> int" where
  "max_list_from m [] = m"
| "max_list_from m (x # xs) = max_list_from (max m x) xs"

fun boundingRect :: "contour \<Rightarrow> int \<times> int \<times> int \<times> int" where
  "boundingRect [] = (0, 0, 0, 0)"
| "boundingRect (p # ps) =
     (min_list_from (fst p) (map fst ps),
      min_list_from (snd p) (map snd ps),
      max_list_from (fst p) (map fst ps) - min_list_from (fst p) (map fst ps) + 1,
      max_list_from (snd p) (map snd ps) - min_list_from (snd p) (map snd ps) + 1)"

text \<open>
  \<^verbatim>\<open>max(contours, key=cv2.contourArea)\<close>: the first contour of largest area; a later
  one replaces the current best only when its area is strictly larger.
\<close>

fun max_by_area :: "contour \<Rightarrow> contour list \<Rightarrow> contour" where
  "max_by_area best [] = best"
| "max_by_area best (c # cs) =
     (if contourArea c > contourArea best then max_by_area c cs else max_by_area best cs)"

definition circularity_of :: "real \<Rightarrow> real \<Rightarrow> real" where
  "circularity_of area perimeter =
     (if perimeter > 0 then 4 * pi * area / (perimeter * perimeter) else 0)"

fun aspect_ratio_of :: "int \<times> int \<times> int \<times> int \<Rightarrow> real" where
  "aspect_ratio_of (x, y, w, h) = (if h > 0 then real_of_int w / real_of_int h else 0)"

definition morphology_of :: "real \<Rightarrow> real \<Rightarrow> string" where
  "morphology_of circularity aspect_ratio =
     (if circularity < 0.3 then ''Branching''
      else if circularity < 0.6 then
        (if aspect_ratio > 1.5 \<or> aspect_ratio < 0.67 then ''Plate/Table'' else ''Boulder'')
      else ''Encrusting'')"

text \<open>The dictionary \<^verbatim>\<open>features\<close>, keyed by name.\<close>

definition features_of :: "real \<Rightarrow> real \<Rightarrow> real \<Rightarrow> nat \<Rightarrow> (string \<rightharpoonup> real)" where
  "features_of circularity aspect_ratio area n =
     [''circularity'' \<mapsto> circularity, ''aspect_ratio'' \<mapsto> aspect_ratio,
      ''area'' \<mapsto> area, ''contours_found'' \<mapsto> real n]"

definition morphology_features :: "contour \<Rightarrow> nat \<Rightarrow> string \<times> (string \<rightharpoonup> real)" where
  "morphology_features largest_contour n =
     (morphology_of
        (circularity_of (contourArea largest_contour) (arcLength largest_contour))
        (aspect_ratio_of (boundingRect largest_contour)),
      features_of
        (circularity_of (contourArea largest_contour) (arcLength largest_contour))
        (aspect_ratio_of (boundingRect largest_contour))
        (contourArea largest_contour) n)"

definition analyze_contours :: "contour list \<Rightarrow> string \<times> (string \<rightharpoonup> real)" where
  "analyze_contours contours =
     morphology_features (max_by_area (hd contours) (tl contours)) (length contours)"

text \<open>
  \<^verbatim>\<open>analyze_morphology\<close>. The argument \<open>find_contours\<close> stands for
  \<^verbatim>\<open>cv2.Canny(img, 50, 150)\<close> followed by \<^verbatim>\<open>cv2.findContours\<close> with
  \<^verbatim>\<open>RETR_EXTERNAL\<close> and \<^verbatim>\<open>CHAIN_APPROX_SIMPLE\<close>; \<open>imread\<close> is the result of
  reading the file as a grey image. The result is (morphology, features).
\<close>

definition analyze_morphology ::
  "('g \<Rightarrow> contour list) \<Rightarrow> 'g option \<Rightarrow> string \<times> (string \<rightharpoonup> real)" where
  "analyze_morphology find_contours imread =
     (case imread of
        None \<Rightarrow> (''Unknown'', Map.empty)
      | Some img \<Rightarrow>
          if find_contours img = [] then (''Unknown'', Map.empty)
          else analyze_contours (find_contours img))"

section \<open>Species table and resolver\<close>

text \<open>
  A row of the table \<^verbatim>\<open>coral_species\<close>. The column \<^verbatim>\<open>id\<close> is the integer primary
  key, which SQLite assigns in insertion order starting from 1. The table is the list of
  its rows in that order, which is the order a \<^verbatim>\<open>SELECT\<close> without \<^verbatim>\<open>ORDER BY\<close>
  scans them in.
\<close>

record species =
  species_id :: nat
  common_name :: string
  scientific_name :: string
  family :: string
  genus :: string
  morphology :: string
  bleaching_resistance :: string
  conservation_status :: string
  color_patterns :: string
  typical_size_cm :: int
  image_features :: string

type_synonym coral_tuple =
  "string \<times> string \<times> string \<times> string \<times> string \<times> string \<times> string \<times> string \<times> int \<times> string"

definition corals :: "coral_tuple list" where
  "corals =
    [(''Staghorn Coral'', ''Acropora cervicornis'', ''Acroporidae'', ''Acropora'',
      ''Branching'', ''Low'', ''Critically Endangered'', ''Brown/Yellow'', 300,
      ''Thick branches, antler-like''),
     (''Elkhorn Coral'', ''Acropora palmata'', ''Acroporidae'', ''Acropora'',
      ''Branching'', ''Low'', ''Critically Endangered'', ''Golden brown'', 350,
      ''Flat branches, elk antler shape''),
     (''Table Coral'', ''Acropora hyacinthus'', ''Acroporidae'', ''Acropora'',
      ''Plate/Table'', ''Medium'', ''Vulnerable'', ''Blue/Purple'', 200,
      ''Horizontal plates, tiered''),
     (''Great Star Coral'', ''Montastraea cavernosa'', ''Merulinidae'', ''Montastraea'',
      ''Boulder'', ''Medium'', ''Vulnerable'', ''Green/Brown'', 150,
      ''Massive, star-shaped polyps''),
     (''Mustard Hill Coral'', ''Porites astreoides'', ''Poritidae'', ''Porites'',
      ''Boulder'', ''High'', ''Least Concern'', ''Yellow/Green'', 100,
      ''Small mounds, mustard color''),
     (''Brain Coral'', ''Diploria labyrinthiformis'', ''Merulinidae'', ''Diploria'',
      ''Boulder'', ''High'', ''Near Threatened'', ''Brown/Green'', 180,
      ''Grooved like brain''),
     (''Leaf Coral'', ''Pavona decussata'', ''Agariciidae'', ''Pavona'',
      ''Plate'', ''Medium'', ''Least Concern'', ''Cream/Brown'', 120,
      ''Leaf-like plates''),
     (''Flower Coral'', ''Mussa angulosa'', ''Faviidae'', ''Mussa'',
      ''Boulder'', ''Low'', ''Vulnerable'', ''Red/Orange'', 80,
      ''Large fleshy polyps''),
     (''Soft Coral'', ''Sinularia flexibilis'', ''Alcyoniidae'', ''Sinularia'',
      ''Soft'', ''Medium'', ''Data Deficient'', ''Various'', 150,
      ''Flexible, tree-like'')]"

fun insert_row :: "nat \<Rightarrow> coral_tuple \<Rightarrow> species" where
  "insert_row i (cn, sn, fam, gen, morph, res, status, col, cm, feat) =
     \<lparr>species_id = i, common_name = cn, scientific_name = sn, family = fam, genus = gen,
      morphology = morph, bleaching_resistance = res, conservation_status = status,
      color_patterns = col, typical_size_cm = cm, image_features = feat\<rparr>"

text \<open>\<^verbatim>\<open>executemany\<close> of the \<^verbatim>\<open>INSERT\<close>: the rows are appended, numbered from \<open>i\<close>.\<close>

fun executemany_insert :: "nat \<Rightarrow> coral_tuple list \<Rightarrow> species list" where
  "executemany_insert i [] = []"
| "executemany_insert i (t # ts) = insert_row i t # executemany_insert (Suc i) ts"

text \<open>
  \<^verbatim>\<open>populate_coral_species\<close>: the nine rows are inserted when the table is empty
  and the table is left as it is otherwise.
\<close>

definition populate_coral_species :: "species list \<Rightarrow> species list" where
  "populate_coral_species table =
     (if length table = 0 then table @ executemany_insert 1 corals else table)"

text \<open>
  \<^verbatim>\<open>str.lower\<close> on the letters A to Z; every other character of the 8-bit
  alphabet modelled here is left as it is.
\<close>

definition lower_char :: "char \<Rightarrow> char" where
  "lower_char c =
     (case map_of (zip ''ABCDEFGHIJKLMNOPQRSTUVWXYZ'' ''abcdefghijklmnopqrstuvwxyz'') c of
        Some d \<Rightarrow> d
      | None \<Rightarrow> c)"

definition lower :: "string \<Rightarrow> string" where
  "lower s = map lower_char s"

text \<open>The operator \<^verbatim>\<open>in\<close> on strings: \<open>k\<close> occurs in \<open>s\<close> as a contiguous substring.\<close>

fun starts_with :: "string \<Rightarrow> string \<Rightarrow> bool" where
  "starts_with [] s = True"
| "starts_with (k # ks) [] = False"
| "starts_with (k # ks) (c # cs) = (k = c \<and> starts_with ks cs)"

fun str_contains :: "string \<Rightarrow> string \<Rightarrow> bool" where
  "str_contains k [] = (k = [])"
| "str_contains k (c # cs) = (starts_with k (c # cs) \<or> str_contains k cs)"

text \<open>
  \<^verbatim>\<open>SELECT * FROM coral_species WHERE morphology = m LIMIT 1\<close> and
  \<^verbatim>\<open>SELECT * FROM coral_species LIMIT 1\<close>, each followed by \<^verbatim>\<open>fetchone\<close>: the first
  matching row, or \<open>None\<close>. The argument \<^verbatim>\<open>image_features\<close> of
  \<^verbatim>\<open>identify_coral\<close> is called \<open>feature_text\<close> below, apart from the column of
  the same name.
\<close>

definition select_where_morphology :: "species list \<Rightarrow> string \<Rightarrow> species option" where
  "select_where_morphology table m = find (\<lambda>row. morphology row = m) table"

fun select_first :: "species list \<Rightarrow> species option" where
  "select_first [] = None"
| "select_first (row # rows) = Some row"

definition fetch_match :: "species list \<Rightarrow> string \<Rightarrow> species option" where
  "fetch_match table feature_text =
     (if str_contains ''branch'' (lower feature_text) then
        select_where_morphology table ''Branching''
      else if str_contains ''boulder'' (lower feature_text)
              \<or> str_contains ''massive'' (lower feature_text) then
        select_where_morphology table ''Boulder''
      else if str_contains ''plate'' (lower feature_text)
              \<or> str_contains ''table'' (lower feature_text) then
        select_where_morphology table ''Plate/Table''
      else select_first table)"

text \<open>
  \<^verbatim>\<open>identify_coral\<close>: the matched row with the confidence 85.5, or
  \<open>(None, 0)\<close> when the query returned no row. The result is (species_info, confidence).
\<close>

definition identify_coral :: "species list \<Rightarrow> string \<Rightarrow> species option \<times> real" where
  "identify_coral table feature_text =
     (case fetch_match table feature_text of
        Some result \<Rightarrow> (Some result, 85.5)
      | None \<Rightarrow> (None, 0))"

section \<open>Synthetic test images\<close>

text \<open>
  The images the module builds when it is run as a script: every pixel has the same
  colour. \<open>healthy_img\<close> is the brownish 200 x 300 image (B = 50, G = 100, R = 150) and
  \<open>bleached_img\<close> the whitish one (every channel 220).
\<close>

definition uniform_image :: "nat \<Rightarrow> nat \<Rightarrow> pixel \<Rightarrow> image" where
  "uniform_image h w p = \<lparr>height = h, width = w, data = replicate (h * w) p\<rparr>"

definition healthy_img :: image where
  "healthy_img = uniform_image 200 300 (50, 100, 150)"

definition bleached_img :: image where
  "bleached_img = uniform_image 200 300 (220, 220, 220)"

text \<open>Two further uniform images: a pale pink (B = 220, G = 220, R = 255) and a mid grey.\<close>

definition pale_pink_img :: image where
  "pale_pink_img = uniform_image 200 300 (220, 220, 255)"

definition grey_img :: image where
  "grey_img = uniform_image 200 300 (100, 100, 100)"

text \<open>
  K-means on a sample whose points are all equal: every centre is that point. This
  stands for the clustering on the uniform images above only.
\<close>

fun kmeans_uniform :: "pixel list \<Rightarrow> centre list" where
  "kmeans_uniform [] = []"
| "kmeans_uniform ((r, g, b) # rest) = replicate 5 (unat r, unat g, unat b)"

text \<open>A near-white colour: every channel is at least 220.\<close>

fun near_white :: "pixel \<Rightarrow> bool" where
  "near_white (b, g, r) \<longleftrightarrow> 220 \<le> uint b \<and> 220 \<le> uint g \<and> 220 \<le> uint r"

text \<open>
  Contours for the morphology analysis: an L-shaped outline whose bounding box is 167
  wide and 250 high, and edge detection finding exactly this one or none at all.
\<close>

definition l_shape :: contour where
  "l_shape = [(0, 0), (166, 0), (166, 60), (66, 60), (66, 249), (0, 249)]"

definition find_l_shape :: "unit \<Rightarrow> contour list" where
  "find_l_shape img = [l_shape]"

definition find_nothing :: "unit \<Rightarrow> contour list" where
  "find_nothing img = []"

section \<open>Closed paths\<close>

text \<open>
  Notions for reasoning about the two contour loops: the points of a contour as real
  pairs, the sum of a function over the consecutive pairs of a list, the two summands
  of the loops, and the area under the upper unit half circle between 0 and \<open>s\<close>.
\<close>

fun real_point :: "point \<Rightarrow> real \<times> real" where
  "real_point (x, y) = (real_of_int x, real_of_int y)"

fun edge_sum :: "('a \<Rightarrow> 'a \<Rightarrow> real) \<Rightarrow> 'a list \<Rightarrow> real" where
  "edge_sum f [] = 0"
| "edge_sum f [p] = 0"
| "edge_sum f (p # q # ps) = f p q + edge_sum f (q # ps)"

definition edge_cross :: "real \<times> real \<Rightarrow> real \<times> real \<Rightarrow> real" where
  "edge_cross p q = fst p * snd q - snd p * fst q"

definition edge_length :: "real \<times> real \<Rightarrow> real \<times> real \<Rightarrow> real" where
  "edge_length p q = segment_length (fst q - fst p) (snd q - snd p)"

definition half_disc :: "real \<Rightarrow> real" where
  "half_disc s = (s * sqrt (1 - s\<^sup>2) + arcsin s) / 2"

section \<open>Auxiliary facts about the bleaching detection\<close>

lemma white_pixels_le: "white_pixels img \<le> length (data img)"
  unfolding white_pixels_def white_mask_def
  by (metis length_filter_le length_map)

lemma white_percentage_bounds:
  assumes "wf_image img" and "0 < height img * width img"
  shows "0 \<le> white_percentage img" and "white_percentage img \<le> 1"
proof -
  show "0 \<le> white_percentage img"
    unfolding white_percentage_def by simp
  have "white_pixels img \<le> height img * width img"
    using white_pixels_le [of img] assms(1) by (simp add: wf_image_def)
  then have "real (white_pixels img) \<le> real (height img * width img)"
    by (rule of_nat_mono)
  with assms(2) show "white_percentage img \<le> 1"
    unfolding white_percentage_def by (simp add: divide_le_eq_1)
qed

lemma rgb_to_hsv_sat_eq:
  "fst (snd (rgb_to_hsv r g b)) =
     (if min (min r g) b = max (max r g) b then 0
      else (max (max r g) b - min (min r g) b) / max (max r g) b)"
proof (cases "min (min r g) b = max (max r g) b")
  case True
  then show ?thesis
    by (simp only: rgb_to_hsv_def Let_def if_True fst_conv snd_conv simp_thms)
next
  case False
  then show ?thesis
    by (simp only: rgb_to_hsv_def Let_def if_False fst_conv snd_conv simp_thms)
qed

lemma rgb_to_hsv_saturation:
  assumes "0 \<le> r" "0 \<le> g" "0 \<le> b"
  shows "0 \<le> fst (snd (rgb_to_hsv r g b))" and "fst (snd (rgb_to_hsv r g b)) \<le> 1"
proof -
  define maxc where "maxc = max (max r g) b"
  define minc where "minc = min (min r g) b"
  have mm: "0 \<le> minc" "minc \<le> maxc"
    unfolding maxc_def minc_def using assms by auto
  have s: "fst (snd (rgb_to_hsv r g b)) = (if minc = maxc then 0 else (maxc - minc) / maxc)"
    unfolding maxc_def minc_def by (rule rgb_to_hsv_sat_eq)
  show "0 \<le> fst (snd (rgb_to_hsv r g b))"
  proof (cases "minc = maxc")
    case True
    then show ?thesis unfolding s by simp
  next
    case False
    have "0 \<le> (maxc - minc) / maxc"
      by (rule divide_nonneg_nonneg) (use mm in linarith)+
    with False show ?thesis unfolding s by simp
  qed
  show "fst (snd (rgb_to_hsv r g b)) \<le> 1"
  proof (cases "minc = maxc")
    case True
    then show ?thesis unfolding s by simp
  next
    case False
    with mm have pos: "0 < maxc" by linarith
    have "(maxc - minc) / maxc \<le> 1"
      using pos mm by (simp add: divide_le_eq_1)
    with False show ?thesis unfolding s by simp
  qed
qed

lemma centre_saturation:
  "0 \<le> fst (snd (centre_hsv c))" "fst (snd (centre_hsv c)) \<le> 1"
proof -
  obtain r g b where c: "c = (r, g, b)" by (cases c) auto
  show "0 \<le> fst (snd (centre_hsv c))" "fst (snd (centre_hsv c)) \<le> 1"
    unfolding c centre_hsv.simps
    by (rule rgb_to_hsv_saturation; simp)+
qed

lemma saturation_sum_bounds:
  "acc \<le> saturation_sum cs acc \<and> saturation_sum cs acc \<le> acc + real (length cs)"
proof (induction cs arbitrary: acc)
  case Nil
  show ?case by simp
next
  case (Cons c cs)
  from Cons.IH [of "acc + fst (snd (centre_hsv c))"] centre_saturation [of c]
  show ?case by simp
qed

lemma color_diversity_bounds:
  assumes "colors \<noteq> []"
  shows "0 \<le> color_diversity colors" and "color_diversity colors \<le> 1"
proof -
  from assms have n: "0 < real (length colors)" by simp
  from saturation_sum_bounds [of 0 colors]
  have b: "0 \<le> saturation_sum colors 0" "saturation_sum colors 0 \<le> real (length colors)"
    by simp_all
  show "0 \<le> color_diversity colors"
    unfolding color_diversity_def using b(1) by simp
  show "color_diversity colors \<le> 1"
    unfolding color_diversity_def using b(2) n by (simp add: divide_le_eq_1)
qed

lemma count_colours_healthy_le:
  "fst (count_colours cs (healthy, unhealthy)) \<le> healthy + length cs"
proof (induction cs arbitrary: healthy unhealthy)
  case Nil
  show ?case by simp
next
  case (Cons c cs)
  from Cons.IH [of "healthy + 1" unhealthy] Cons.IH [of healthy "unhealthy + 1"]
    Cons.IH [of healthy unhealthy]
  show ?case by simp
qed

lemma healthy_color_ratio_bounds:
  "0 \<le> healthy_color_ratio colors" "healthy_color_ratio colors \<le> 1"
proof -
  show "0 \<le> healthy_color_ratio colors"
    unfolding healthy_color_ratio_def by simp
  have "real (fst (count_colours colors (0, 0))) \<le> real (length colors)"
    using count_colours_healthy_le [of colors 0 0] by simp
  then show "healthy_color_ratio colors \<le> 1"
    unfolding healthy_color_ratio_def by (simp add: divide_le_eq_1)
qed

lemma bleaching_score_bounds:
  assumes "wf_image img" and "0 < height img * width img" and "colors \<noteq> []"
  shows "0 \<le> bleaching_score img colors" and "bleaching_score img colors \<le> 1"
proof -
  note w = white_percentage_bounds [OF assms(1,2)]
  note d = color_diversity_bounds [OF assms(3)]
  note h = healthy_color_ratio_bounds [of colors]
  show "0 \<le> bleaching_score img colors"
    unfolding bleaching_score_def using w d h by argo
  show "bleaching_score img colors \<le> 1"
    unfolding bleaching_score_def using w d h by argo
qed

lemma detect_bleaching_readable:
  assumes "5 \<le> length (sample img)" and "0 < height img * width img"
    and "kmeans (sample img) \<noteq> []"
  shows "detect_bleaching kmeans (Some img) =
           Inr (bleaching_score img (kmeans (sample img)) * 100,
                fst (health_of (bleaching_score img (kmeans (sample img)) * 100)),
                max 30 (min 95 (snd (health_of (bleaching_score img (kmeans (sample img)) * 100)))))"
  using assms by (simp add: detect_bleaching_def Let_def split_beta)

lemma detect_bleaching_returns:
  assumes "detect_bleaching kmeans (Some img) = Inr r"
  shows "5 \<le> length (sample img)" and "0 < height img * width img"
    and "kmeans (sample img) \<noteq> []"
  using assms by (auto simp add: detect_bleaching_def Let_def split: if_splits)

lemma length_sample: "wf_image img \<Longrightarrow> length (sample img) = min 5000 (height img * width img)"
  by (simp add: sample_def wf_image_def min.commute)

lemma uniform_image_sel [simp]:
  "height (uniform_image h w p) = h" "width (uniform_image h w p) = w"
  "data (uniform_image h w p) = replicate (h * w) p"
  by (simp_all add: uniform_image_def)

lemma wf_uniform_image: "wf_image (uniform_image h w p)"
  by (simp add: wf_image_def)

lemma sample_uniform_image:
  "sample (uniform_image h w p) = replicate (min 5000 (h * w)) (bgr2rgb p)"
  by (simp add: sample_def min.commute)

lemma white_pixels_uniform_image:
  "white_pixels (uniform_image h w p) = (if in_white_range (bgr2hsv p) then h * w else 0)"
  by (simp add: white_pixels_def white_mask_def)

lemma white_percentage_uniform_image:
  "0 < h * w \<Longrightarrow>
     white_percentage (uniform_image h w p) = (if in_white_range (bgr2hsv p) then 1 else 0)"
  by (simp add: white_percentage_def white_pixels_uniform_image)

lemma kmeans_uniform_replicate:
  "0 < n \<Longrightarrow> kmeans_uniform (replicate n (r, g, b)) = replicate 5 (unat r, unat g, unat b)"
  by (cases n) simp_all

lemma saturation_sum_replicate:
  "saturation_sum (replicate n c) acc = acc + real n * fst (snd (centre_hsv c))"
  by (induction n arbitrary: acc) (simp_all add: algebra_simps)

lemma color_diversity_replicate:
  "0 < n \<Longrightarrow> color_diversity (replicate n c) = fst (snd (centre_hsv c))"
  by (simp add: color_diversity_def saturation_sum_replicate)

lemma count_colours_replicate:
  "count_colours (replicate n c) (healthy, unhealthy) =
     (if is_healthy_colour (centre_hsv c) then (healthy + n, unhealthy)
      else if is_bleached_colour (centre_hsv c) then (healthy, unhealthy + n)
      else (healthy, unhealthy))"
  by (induction n arbitrary: healthy unhealthy) simp_all

lemma healthy_color_ratio_replicate:
  "0 < n \<Longrightarrow>
     healthy_color_ratio (replicate n c) = (if is_healthy_colour (centre_hsv c) then 1 else 0)"
  by (simp add: healthy_color_ratio_def count_colours_replicate)

lemma bleaching_score_uniform:
  assumes "0 < h * w" "0 < n"
  shows "bleaching_score (uniform_image h w p) (replicate n c) =
           (if in_white_range (bgr2hsv p) then 1 else 0) * 0.6
           + (1 - fst (snd (centre_hsv c))) * 0.2
           + (1 - (if is_healthy_colour (centre_hsv c) then 1 else 0)) * 0.2"
  unfolding bleaching_score_def
  by (simp only: white_percentage_uniform_image [OF assms(1)] color_diversity_replicate [OF assms(2)]
      healthy_color_ratio_replicate [OF assms(2)])

lemma detect_bleaching_uniform_centres:
  assumes size: "5 \<le> h * w"
    and km: "kmeans (sample (uniform_image h w p)) = replicate n c" and n: "0 < n"
    and white: "in_white_range (bgr2hsv p) = wh"
    and centre: "centre_hsv c = (hue, sat, val)"
    and healthy: "is_healthy_colour (hue, sat, val) = he"
    and pct: "pct = ((if wh then 1 else 0) * 0.6 + (1 - sat) * 0.2
                   + (1 - (if he then 1 else 0)) * 0.2) * 100"
  shows "detect_bleaching kmeans (Some (uniform_image h w p)) =
           Inr (pct, fst (health_of pct), max 30 (min 95 (snd (health_of pct))))"
proof -
  let ?img = "uniform_image h w p"
  from size have pos: "0 < h * w" by linarith
  have len: "length (sample ?img) = min 5000 (h * w)"
    by (simp add: sample_uniform_image)
  have score: "bleaching_score ?img (replicate n c) * 100 = pct"
    unfolding pct
    by (simp only: bleaching_score_uniform [OF pos n] white centre healthy fst_conv snd_conv)
  have "detect_bleaching kmeans (Some ?img) =
           Inr (bleaching_score ?img (kmeans (sample ?img)) * 100,
                fst (health_of (bleaching_score ?img (kmeans (sample ?img)) * 100)),
                max 30 (min 95 (snd (health_of (bleaching_score ?img (kmeans (sample ?img)) * 100)))))"
  proof (rule detect_bleaching_readable)
    show "5 \<le> length (sample ?img)" unfolding len using size by simp
    show "0 < height ?img * width ?img" using pos by (simp del: nat_0_less_mult_iff)
    show "kmeans (sample ?img) \<noteq> []" unfolding km using n by simp
  qed
  then show ?thesis unfolding km score .
qed

lemma kmeans_uniform_sample:
  assumes "5 \<le> h * w"
  shows "kmeans_uniform (sample (uniform_image h w (b, g, r))) = replicate 5 (unat r, unat g, unat b)"
proof -
  from assms have "0 < h * w" by linarith
  then have "0 < min 5000 (h * w)" by (simp del: nat_0_less_mult_iff)
  then show ?thesis
    by (simp only: sample_uniform_image bgr2rgb.simps kmeans_uniform_replicate)
qed

lemma detect_bleaching_uniform:
  assumes size: "5 \<le> h * w"
    and white: "in_white_range (bgr2hsv (b, g, r)) = wh"
    and centre: "centre_hsv (unat r, unat g, unat b) = (hue, sat, val)"
    and healthy: "is_healthy_colour (hue, sat, val) = he"
    and pct: "p = ((if wh then 1 else 0) * 0.6 + (1 - sat) * 0.2
                   + (1 - (if he then 1 else 0)) * 0.2) * 100"
  shows "detect_bleaching kmeans_uniform (Some (uniform_image h w (b, g, r))) =
           Inr (p, fst (health_of p), max 30 (min 95 (snd (health_of p))))"
proof (rule detect_bleaching_uniform_centres [OF size _ _ white centre healthy pct])
  show "kmeans_uniform (sample (uniform_image h w (b, g, r))) = replicate 5 (unat r, unat g, unat b)"
    by (rule kmeans_uniform_sample [OF size])
  show "(0::nat) < 5" by simp
qed

lemmas hsv_eval = hsv_of_range_def hue_sector_def hue_wrap_def sdiv_table_def
  hdiv_table180_def saturate_uchar_def

lemma grey_hsv: "bgr2hsv (c, c, c) = (0, 0, nat (uint c))"
  by (simp add: hsv_eval)

lemma grey_in_white_range:
  assumes "180 \<le> uint c"
  shows "in_white_range (bgr2hsv (c, c, c))"
proof -
  have "uint c < 2 ^ 8"
    using uint_bounded [of c] by simp
  then have "uint c \<le> 255"
    by simp
  with assms have "180 \<le> nat (uint c)" "nat (uint c) \<le> 255"
    by linarith+
  then show ?thesis
    unfolding grey_hsv by simp
qed

lemma detect_bleaching_healthy_img:
  "detect_bleaching kmeans_uniform (Some healthy_img) = Inr (20 / 3, Watch, 60)"
proof -
  have "detect_bleaching kmeans_uniform (Some (uniform_image 200 300 (50, 100, 150))) =
          Inr (20 / 3, fst (health_of (20 / 3)), max 30 (min 95 (snd (health_of (20 / 3)))))"
  proof (rule detect_bleaching_uniform)
    show "(5::nat) \<le> 200 * 300" by simp
    show "in_white_range (bgr2hsv (50, 100, 150)) = False" by (simp add: hsv_eval)
    show "centre_hsv (unat (150 :: 8 word), unat (100 :: 8 word), unat (50 :: 8 word))
            = (1 / 12, 2 / 3, 10 / 17)"
      by (simp add: rgb_to_hsv_def Let_def frac_def)
    show "is_healthy_colour (1 / 12, 2 / 3, 10 / 17) = True" by simp
    show "(20 / 3 :: real) = ((if False then 1 else 0) * 0.6 + (1 - 2 / 3) * 0.2
                   + (1 - (if True then 1 else 0)) * 0.2) * 100" by simp
  qed
  then show ?thesis
    by (simp add: healthy_img_def health_of_def)
qed

lemma detect_bleaching_bleached_img:
  "detect_bleaching kmeans_uniform (Some bleached_img) = Inr (100, Severely_Bleached, 95)"
proof -
  have "detect_bleaching kmeans_uniform (Some (uniform_image 200 300 (220, 220, 220))) =
          Inr (100, fst (health_of 100), max 30 (min 95 (snd (health_of 100))))"
  proof (rule detect_bleaching_uniform)
    show "(5::nat) \<le> 200 * 300" by simp
    show "in_white_range (bgr2hsv (220, 220, 220)) = True" by (simp add: hsv_eval)
    show "centre_hsv (unat (220 :: 8 word), unat (220 :: 8 word), unat (220 :: 8 word))
            = (0, 0, 44 / 51)"
      by (simp add: rgb_to_hsv_def Let_def frac_def)
    show "is_healthy_colour (0, 0, 44 / 51) = False" by simp
    show "(100 :: real) = ((if True then 1 else 0) * 0.6 + (1 - 0) * 0.2
                   + (1 - (if False then 1 else 0)) * 0.2) * 100" by simp
  qed
  then show ?thesis
    by (simp add: bleached_img_def health_of_def)
qed

lemma detect_bleaching_pale_pink_img:
  "detect_bleaching kmeans_uniform (Some pale_pink_img) =
     Inr (1900 / 51, Moderately_Bleached, 4705 / 51)"
proof -
  have "detect_bleaching kmeans_uniform (Some (uniform_image 200 300 (220, 220, 255))) =
          Inr (1900 / 51, fst (health_of (1900 / 51)),
               max 30 (min 95 (snd (health_of (1900 / 51)))))"
  proof (rule detect_bleaching_uniform)
    show "(5::nat) \<le> 200 * 300" by simp
    show "in_white_range (bgr2hsv (220, 220, 255)) = False" by (simp add: hsv_eval)
    show "centre_hsv (unat (255 :: 8 word), unat (220 :: 8 word), unat (220 :: 8 word))
            = (0, 7 / 51, 1)"
      by (simp add: rgb_to_hsv_def Let_def frac_def)
    show "is_healthy_colour (0, 7 / 51, 1) = False" by simp
    show "(1900 / 51 :: real) = ((if False then 1 else 0) * 0.6 + (1 - 7 / 51) * 0.2
                   + (1 - (if False then 1 else 0)) * 0.2) * 100" by simp
  qed
  then show ?thesis
    by (simp add: pale_pink_img_def health_of_def)
qed

lemma detect_bleaching_grey_img:
  "detect_bleaching kmeans_uniform (Some grey_img) = Inr (40, Moderately_Bleached, 95)"
proof -
  have "detect_bleaching kmeans_uniform (Some (uniform_image 200 300 (100, 100, 100))) =
          Inr (40, fst (health_of 40), max 30 (min 95 (snd (health_of 40))))"
  proof (rule detect_bleaching_uniform)
    show "(5::nat) \<le> 200 * 300" by simp
    show "in_white_range (bgr2hsv (100, 100, 100)) = False" by (simp add: hsv_eval)
    show "centre_hsv (unat (100 :: 8 word), unat (100 :: 8 word), unat (100 :: 8 word))
            = (0, 0, 20 / 51)"
      by (simp add: rgb_to_hsv_def Let_def frac_def)
    show "is_healthy_colour (0, 0, 20 / 51) = False" by simp
    show "(40 :: real) = ((if False then 1 else 0) * 0.6 + (1 - 0) * 0.2
                   + (1 - (if False then 1 else 0)) * 0.2) * 100" by simp
  qed
  then show ?thesis
    by (simp add: grey_img_def health_of_def)
qed

section \<open>Properties of the bleaching detection\<close>

subsection \<open>Threshold chain\<close>

text \<open>
  Claim C1. Whenever \<open>detect_bleaching\<close> returns for a readable image, the returned
  percentage \<open>p\<close> selects exactly one status, by strict comparisons from high to low:
  \<open>p > 40\<close> gives Severely Bleached with confidence \<open>min p 95\<close>; \<open>40 \<ge> p > 20\<close> gives
  Moderately Bleached with \<open>75 + (p - 20)\<close>; \<open>20 \<ge> p > 10\<close> gives Mild Stress with
  \<open>65 + (p - 10)\<close>; \<open>10 \<ge> p > 5\<close> gives Watch with 60; \<open>p \<le> 5\<close> gives Healthy with
  \<open>95 - p\<close>. The values 40, 20, 10 and 5 themselves fall into the lower bracket. The
  confidence is the returned one: the final clamp leaves these values as they are.
\<close>

theorem health_status_thresholds:
  assumes "wf_image img" and "kmeans (sample img) \<noteq> []"
    and "detect_bleaching kmeans (Some img) = Inr (p, st, c)"
  shows "(40 < p \<longrightarrow> st = Severely_Bleached \<and> c = min p 95) \<and>
         (20 < p \<and> p \<le> 40 \<longrightarrow> st = Moderately_Bleached \<and> c = 75 + (p - 20)) \<and>
         (10 < p \<and> p \<le> 20 \<longrightarrow> st = Mild_Stress \<and> c = 65 + (p - 10)) \<and>
         (5 < p \<and> p \<le> 10 \<longrightarrow> st = Watch \<and> c = 60) \<and>
         (p \<le> 5 \<longrightarrow> st = Healthy \<and> c = 95 - p)"
proof -
  note r = detect_bleaching_returns [where kmeans = kmeans and img = img, OF assms(3)]
  from detect_bleaching_readable [where kmeans = kmeans and img = img, OF r] assms(3)
  have p: "p = bleaching_score img (kmeans (sample img)) * 100"
    and st: "st = fst (health_of p)"
    and c: "c = max 30 (min 95 (snd (health_of p)))"
    by simp_all
  from bleaching_score_bounds(1) [OF assms(1) r(2) r(3)] have p0: "0 \<le> p"
    unfolding p by simp
  show ?thesis
    unfolding st c using p0 by (simp add: health_of_def)
qed

text \<open>
  The mid-grey image sits exactly on the boundary 40 and is Moderately Bleached.
\<close>

theorem health_status_thresholds_witness:
  "wf_image grey_img \<and> kmeans_uniform (sample grey_img) \<noteq> [] \<and>
   detect_bleaching kmeans_uniform (Some grey_img) = Inr (40, Moderately_Bleached, 95) \<and>
   (95 :: real) = 75 + (40 - 20)"
  using health_status_thresholds [of grey_img kmeans_uniform 40 Moderately_Bleached 95]
    detect_bleaching_grey_img
  by (simp add: grey_img_def wf_uniform_image kmeans_uniform_sample)

subsection \<open>Combined score\<close>

text \<open>
  Claim C2. For a readable image the three signals are combined as
  \<open>0.6 * white ratio + 0.2 * (1 - colour diversity) + 0.2 * (1 - healthy colour ratio)\<close>,
  and the returned percentage is this score times 100.
\<close>

theorem bleaching_score_formula:
  assumes "detect_bleaching kmeans (Some img) = Inr (p, st, c)"
  shows "p = (0.6 * white_percentage img
              + 0.2 * (1 - color_diversity (kmeans (sample img)))
              + 0.2 * (1 - healthy_color_ratio (kmeans (sample img)))) * 100 \<and>
         p = bleaching_score img (kmeans (sample img)) * 100"
proof -
  note r = detect_bleaching_returns [where kmeans = kmeans and img = img, OF assms]
  from detect_bleaching_readable [where kmeans = kmeans and img = img, OF r] assms
  have "p = bleaching_score img (kmeans (sample img)) * 100"
    by simp
  then show ?thesis
    by (simp add: bleaching_score_def)
qed

theorem bleaching_score_formula_witness:
  "detect_bleaching kmeans_uniform (Some healthy_img) = Inr (20 / 3, Watch, 60) \<and>
   white_percentage healthy_img = 0 \<and>
   color_diversity (kmeans_uniform (sample healthy_img)) = 2 / 3 \<and>
   healthy_color_ratio (kmeans_uniform (sample healthy_img)) = 1 \<and>
   (20 / 3 :: real) = (0.6 * 0 + 0.2 * (1 - 2 / 3) + 0.2 * (1 - 1)) * 100"
proof -
  have k: "kmeans_uniform (sample healthy_img) = replicate 5 (150, 100, 50)"
    unfolding healthy_img_def by (simp add: kmeans_uniform_sample)
  have w: "white_percentage healthy_img = 0"
    unfolding healthy_img_def by (simp add: white_percentage_uniform_image hsv_eval)
  have c: "centre_hsv (150, 100, 50) = (1 / 12, 2 / 3, 10 / 17)"
    by (simp add: rgb_to_hsv_def Let_def frac_def)
  have d: "color_diversity (kmeans_uniform (sample healthy_img)) = 2 / 3"
    unfolding k by (simp only: color_diversity_replicate zero_less_numeral c fst_conv snd_conv)
  have "is_healthy_colour (centre_hsv (150, 100, 50))"
    unfolding c by simp
  then have h: "healthy_color_ratio (kmeans_uniform (sample healthy_img)) = 1"
    unfolding k by (simp only: healthy_color_ratio_replicate zero_less_numeral if_True)
  from bleaching_score_formula [OF detect_bleaching_healthy_img] w d h
    detect_bleaching_healthy_img
  show ?thesis by simp
qed

subsection \<open>Ranges\<close>

text \<open>
  Claim C3. For a well-formed readable image, whatever centres the clustering returns,
  the returned percentage lies in [0, 100] and the returned confidence in [30, 95]; the
  bound on the confidence comes from the final clamp alone. The function does return
  when the image has at least five pixels (with fewer, fitting five clusters raises).
\<close>

theorem detect_bleaching_ranges:
  assumes "wf_image img" and "kmeans (sample img) \<noteq> []"
  shows "(5 \<le> height img * width img \<longrightarrow>
            (\<exists>p st c. detect_bleaching kmeans (Some img) = Inr (p, st, c))) \<and>
         (\<forall>p st c. detect_bleaching kmeans (Some img) = Inr (p, st, c) \<longrightarrow>
            0 \<le> p \<and> p \<le> 100 \<and> 30 \<le> c \<and> c \<le> 95)"
proof (intro conjI impI allI)
  assume size: "5 \<le> height img * width img"
  then have "5 \<le> length (sample img)" "0 < height img * width img"
    using assms(1) by (simp_all add: length_sample del: nat_0_less_mult_iff)
  from detect_bleaching_readable [where kmeans = kmeans and img = img, OF this assms(2)]
  show "\<exists>p st c. detect_bleaching kmeans (Some img) = Inr (p, st, c)"
    by blast
next
  fix p st c
  assume res: "detect_bleaching kmeans (Some img) = Inr (p, st, c)"
  note r = detect_bleaching_returns [where kmeans = kmeans and img = img, OF res]
  from detect_bleaching_readable [where kmeans = kmeans and img = img, OF r] res
  have p: "p = bleaching_score img (kmeans (sample img)) * 100"
    and c: "c = max 30 (min 95 (snd (health_of p)))"
    by simp_all
  from bleaching_score_bounds [OF assms(1) r(2) r(3)]
  show "0 \<le> p" "p \<le> 100" unfolding p by simp_all
  show "30 \<le> c" "c \<le> 95" unfolding c by simp_all
qed

theorem detect_bleaching_ranges_witness:
  "wf_image bleached_img \<and> kmeans_uniform (sample bleached_img) \<noteq> [] \<and>
   (5 :: nat) \<le> height bleached_img * width bleached_img \<and>
   detect_bleaching kmeans_uniform (Some bleached_img) = Inr (100, Severely_Bleached, 95) \<and>
   (0 :: real) \<le> 100 \<and> (100 :: real) \<le> 100 \<and> (30 :: real) \<le> 95 \<and> (95 :: real) \<le> 95"
  using detect_bleaching_ranges [of bleached_img kmeans_uniform] detect_bleaching_bleached_img
  by (simp add: bleached_img_def wf_uniform_image kmeans_uniform_sample)

subsection \<open>Sentinels\<close>

text \<open>
  Claim C5. When the image cannot be read, \<open>detect_bleaching\<close> returns
  \<open>(0, Unknown, 0)\<close> and \<open>analyze_morphology\<close> returns \<open>(''Unknown'', {})\<close>; when the image
  is read and no contour is found, \<open>analyze_morphology\<close> returns \<open>(''Unknown'', {})\<close> as
  well. In each case the function returns a value and raises nothing.
\<close>

theorem unreadable_and_contourless_sentinels:
  "detect_bleaching kmeans None = Inr (0, Unknown, 0) \<and>
   analyze_morphology find_contours None = (''Unknown'', Map.empty) \<and>
   (find_contours img = [] \<longrightarrow>
      analyze_morphology find_contours (Some img) = (''Unknown'', Map.empty))"
  by (simp add: detect_bleaching_def analyze_morphology_def)

theorem unreadable_and_contourless_sentinels_witness:
  "detect_bleaching kmeans_uniform None = Inr (0, Unknown, 0) \<and>
   analyze_morphology find_nothing None = (''Unknown'', Map.empty) \<and>
   find_nothing () = [] \<and>
   analyze_morphology find_nothing (Some ()) = (''Unknown'', Map.empty)"
  using unreadable_and_contourless_sentinels [of kmeans_uniform find_nothing "()"]
  by (simp add: find_nothing_def)

subsection \<open>Uniform near-white images\<close>

text \<open>
  Claim C8 as stated fails: a uniform image may have every channel at 220 or above and
  still lie outside the
  white range of the detector: for the pale pink (B, G, R) = (220, 220, 255) the
  saturation is 35 of 255, no pixel counts as white, the percentage is about 37.3 and
  the status is Moderately Bleached.
\<close>

theorem near_white_counterexample:
  "near_white (220, 220, 255) \<and>
   white_percentage pale_pink_img = 0 \<and>
   detect_bleaching kmeans_uniform (Some pale_pink_img) =
     Inr (1900 / 51, Moderately_Bleached, 4705 / 51) \<and>
   (1900 / 51 :: real) \<le> 40"
proof -
  have "white_percentage pale_pink_img = 0"
    unfolding pale_pink_img_def by (simp add: white_percentage_uniform_image hsv_eval)
  with detect_bleaching_pale_pink_img show ?thesis
    by simp
qed

text \<open>
  Claim C8, amended. For every uniform image whose colour has every channel at 220 or
  above and lies in the white range of the detector (saturation at most 30 of 255),
  the white ratio is exactly 1, the percentage exceeds 40 and the status is Severely
  Bleached, whatever centres the clustering returns. Every grey of level 180 or more
  lies in the white range (\<open>grey_in_white_range\<close>), the whitish test image among them.
\<close>

theorem white_range_image_severely_bleached:
  assumes "near_white p" and "in_white_range (bgr2hsv p)" and "5 \<le> h * w"
    and "kmeans (sample (uniform_image h w p)) \<noteq> []"
  shows "white_percentage (uniform_image h w p) = 1 \<and>
         (\<exists>pct c. detect_bleaching kmeans (Some (uniform_image h w p))
                     = Inr (pct, Severely_Bleached, c) \<and> 40 < pct)"
proof -
  let ?img = "uniform_image h w p"
  let ?cs = "kmeans (sample ?img)"
  from assms(3) have pos: "0 < h * w" by linarith
  have w: "white_percentage ?img = 1"
    using assms(2) by (simp only: white_percentage_uniform_image [OF pos] if_True)
  have len: "5 \<le> length (sample ?img)"
    using assms(3) by (simp add: sample_uniform_image)
  have pos': "0 < height ?img * width ?img"
    using pos by (simp del: nat_0_less_mult_iff)
  note res = detect_bleaching_readable [where kmeans = kmeans and img = ?img, OF len pos' assms(4)]
  from color_diversity_bounds(2) [OF assms(4)] healthy_color_ratio_bounds(2) [of ?cs]
  have "60 \<le> bleaching_score ?img ?cs * 100"
    unfolding bleaching_score_def w by argo
  then have big: "40 < bleaching_score ?img ?cs * 100"
    by linarith
  then have "fst (health_of (bleaching_score ?img ?cs * 100)) = Severely_Bleached"
    by (simp add: health_of_def)
  with res big w show ?thesis
    by simp
qed

theorem white_range_image_severely_bleached_witness:
  "near_white (220, 220, 220) \<and> in_white_range (bgr2hsv (220, 220, 220)) \<and>
   (5 :: nat) \<le> 200 * 300 \<and>
   kmeans_uniform (sample (uniform_image 200 300 (220, 220, 220))) \<noteq> [] \<and>
   white_percentage (uniform_image 200 300 (220, 220, 220)) = 1 \<and>
   detect_bleaching kmeans_uniform (Some (uniform_image 200 300 (220, 220, 220)))
     = Inr (100, Severely_Bleached, 95)"
  using white_range_image_severely_bleached [of "(220, 220, 220)" 200 300 kmeans_uniform]
    detect_bleaching_bleached_img
  by (simp add: bleached_img_def kmeans_uniform_sample hsv_eval)

subsection \<open>The uniform brown image\<close>

text \<open>
  Claim C9 concerns the uniform brown image (R, G, B) = (150, 100, 50), stored in B, G, R
  order. With every cluster centre equal to that colour, no pixel counts as white, the
  colour is a healthy one and its saturation is 2/3, so the percentage is
  \<open>20 * (1 - 2/3) = 20/3\<close>, which is above 5: the status returned is Watch with
  confidence 60, not Healthy.
\<close>

theorem brown_image_flagged_watch:
  assumes "5 \<le> h * w"
    and "kmeans (sample (uniform_image h w (50, 100, 150))) = replicate n (150, 100, 50)"
    and "0 < n"
  shows "detect_bleaching kmeans (Some (uniform_image h w (50, 100, 150)))
           = Inr (20 / 3, Watch, 60)"
proof -
  have "detect_bleaching kmeans (Some (uniform_image h w (50, 100, 150))) =
          Inr (20 / 3, fst (health_of (20 / 3)), max 30 (min 95 (snd (health_of (20 / 3)))))"
  proof (rule detect_bleaching_uniform_centres [where kmeans = kmeans, OF assms])
    show "in_white_range (bgr2hsv (50, 100, 150)) = False" by (simp add: hsv_eval)
    show "centre_hsv (150, 100, 50) = (1 / 12, 2 / 3, 10 / 17)"
      by (simp add: rgb_to_hsv_def Let_def frac_def)
    show "is_healthy_colour (1 / 12, 2 / 3, 10 / 17) = True" by simp
    show "(20 / 3 :: real) = ((if False then 1 else 0) * 0.6 + (1 - 2 / 3) * 0.2
                   + (1 - (if True then 1 else 0)) * 0.2) * 100" by simp
  qed
  then show ?thesis
    by (simp add: health_of_def)
qed

theorem brown_image_flagged_watch_witness:
  "(5 :: nat) \<le> 200 * 300 \<and>
   kmeans_uniform (sample healthy_img) = replicate 5 (150, 100, 50) \<and>
   detect_bleaching kmeans_uniform (Some healthy_img) = Inr (20 / 3, Watch, 60) \<and>
   (5 :: real) < 20 / 3"
  using brown_image_flagged_watch [of 200 300 kmeans_uniform 5]
  by (simp add: healthy_img_def kmeans_uniform_sample)

section \<open>Properties of the species resolver\<close>

subsection \<open>Auxiliary facts\<close>

lemma starts_with_iff: "starts_with k s \<longleftrightarrow> (\<exists>ss. s = k @ ss)"
  by (induction k s rule: starts_with.induct) auto

lemma str_contains_iff: "str_contains k s \<longleftrightarrow> (\<exists>ps ss. s = ps @ k @ ss)"
proof (induction s)
  case Nil
  show ?case by auto
next
  case (Cons c cs)
  show ?case
  proof
    assume "str_contains k (c # cs)"
    then consider "starts_with k (c # cs)" | "str_contains k cs" by auto
    then show "\<exists>ps ss. c # cs = ps @ k @ ss"
    proof cases
      case 1
      then obtain ss where "c # cs = k @ ss" unfolding starts_with_iff ..
      then have "c # cs = [] @ k @ ss" by simp
      then show ?thesis by blast
    next
      case 2
      with Cons.IH obtain ps ss where "cs = ps @ k @ ss" by blast
      then have "c # cs = (c # ps) @ k @ ss" by simp
      then show ?thesis by blast
    qed
  next
    assume "\<exists>ps ss. c # cs = ps @ k @ ss"
    then obtain ps ss where eq: "c # cs = ps @ k @ ss" by blast
    show "str_contains k (c # cs)"
    proof (cases ps)
      case Nil
      with eq have "starts_with k (c # cs)" unfolding starts_with_iff by auto
      then show ?thesis by simp
    next
      case (Cons p ps')
      with eq have "cs = ps' @ k @ ss" by simp
      with Cons.IH have "str_contains k cs" by blast
      then show ?thesis by simp
    qed
  qed
qed

lemma populated_table:
  "populate_coral_species [] =
     [insert_row 1 (corals ! 0), insert_row 2 (corals ! 1), insert_row 3 (corals ! 2),
      insert_row 4 (corals ! 3), insert_row 5 (corals ! 4), insert_row 6 (corals ! 5),
      insert_row 7 (corals ! 6), insert_row 8 (corals ! 7), insert_row 9 (corals ! 8)]"
  by (simp add: populate_coral_species_def corals_def)

lemma populated_first: "select_first (populate_coral_species []) = Some (insert_row 1 (corals ! 0))"
  by (simp add: populated_table)

lemma populated_branching:
  "select_where_morphology (populate_coral_species []) ''Branching'' = Some (insert_row 1 (corals ! 0))"
  by (simp add: populated_table select_where_morphology_def corals_def)

lemma populated_boulder:
  "select_where_morphology (populate_coral_species []) ''Boulder'' = Some (insert_row 4 (corals ! 3))"
  by (simp add: populated_table select_where_morphology_def corals_def)

lemma populated_plate_table:
  "select_where_morphology (populate_coral_species []) ''Plate/Table'' = Some (insert_row 3 (corals ! 2))"
  by (simp add: populated_table select_where_morphology_def corals_def)

lemma lower_branching: "lower ''BRANCHING Coral'' = ''branching coral''"
  by (simp add: lower_def lower_char_def)

subsection \<open>Keyword priority\<close>

text \<open>
  Claim C6. The resolver looks for keywords in the lower-cased descriptor, in a fixed
  order: with \<open>branch\<close> it returns the first row whose morphology is Branching;
  otherwise, with \<open>boulder\<close> or \<open>massive\<close>, the first row whose morphology is Boulder;
  otherwise, with \<open>plate\<close> or \<open>table\<close>, the first row whose morphology is Plate/Table;
  otherwise the first row of the table. Whenever a row is returned the confidence is
  85.5, and \<open>(None, 0)\<close> is returned when the query finds no row. On the populated table
  every descriptor containing \<open>branch\<close> yields the same row, the first one (Staghorn
  Coral). Containment is the one characterised by \<open>str_contains_iff\<close>.
\<close>

theorem identify_coral_priority:
  "(str_contains ''branch'' (lower s) \<longrightarrow>
      identify_coral table s =
        (case find (\<lambda>row. morphology row = ''Branching'') table of
           Some r \<Rightarrow> (Some r, 85.5) | None \<Rightarrow> (None, 0))) \<and>
   (\<not> str_contains ''branch'' (lower s) \<and>
    (str_contains ''boulder'' (lower s) \<or> str_contains ''massive'' (lower s)) \<longrightarrow>
      identify_coral table s =
        (case find (\<lambda>row. morphology row = ''Boulder'') table of
           Some r \<Rightarrow> (Some r, 85.5) | None \<Rightarrow> (None, 0))) \<and>
   (\<not> str_contains ''branch'' (lower s) \<and>
    \<not> str_contains ''boulder'' (lower s) \<and> \<not> str_contains ''massive'' (lower s) \<and>
    (str_contains ''plate'' (lower s) \<or> str_contains ''table'' (lower s)) \<longrightarrow>
      identify_coral table s =
        (case find (\<lambda>row. morphology row = ''Plate/Table'') table of
           Some r \<Rightarrow> (Some r, 85.5) | None \<Rightarrow> (None, 0))) \<and>
   (\<not> str_contains ''branch'' (lower s) \<and>
    \<not> str_contains ''boulder'' (lower s) \<and> \<not> str_contains ''massive'' (lower s) \<and>
    \<not> str_contains ''plate'' (lower s) \<and> \<not> str_contains ''table'' (lower s) \<longrightarrow>
      identify_coral table s =
        (case table of r # rows \<Rightarrow> (Some r, 85.5) | [] \<Rightarrow> (None, 0))) \<and>
   (\<forall>r c. identify_coral table s = (Some r, c) \<longrightarrow> c = 85.5) \<and>
   (str_contains ''branch'' (lower s) \<longrightarrow>
      identify_coral (populate_coral_species []) s = (Some (insert_row 1 (corals ! 0)), 85.5))"
proof (intro conjI impI allI)
  fix r c
  assume "identify_coral table s = (Some r, c)"
  then show "c = 85.5"
    by (auto simp add: identify_coral_def split: option.splits)
next
  assume "str_contains ''branch'' (lower s)"
  then have "fetch_match (populate_coral_species []) s = Some (insert_row 1 (corals ! 0))"
    by (simp only: fetch_match_def if_True populated_branching)
  then show "identify_coral (populate_coral_species []) s = (Some (insert_row 1 (corals ! 0)), 85.5)"
    by (simp add: identify_coral_def)
next
  assume "\<not> str_contains ''branch'' (lower s) \<and>
    \<not> str_contains ''boulder'' (lower s) \<and> \<not> str_contains ''massive'' (lower s) \<and>
    \<not> str_contains ''plate'' (lower s) \<and> \<not> str_contains ''table'' (lower s)"
  then have "fetch_match table s = select_first table"
    by (simp only: fetch_match_def if_False simp_thms)
  then show "identify_coral table s = (case table of r # rows \<Rightarrow> (Some r, 85.5) | [] \<Rightarrow> (None, 0))"
    by (cases table) (simp_all add: identify_coral_def)
qed (simp_all only: identify_coral_def fetch_match_def select_where_morphology_def
       if_True if_False simp_thms)

theorem identify_coral_priority_witness:
  "str_contains ''branch'' (lower ''BRANCHING Coral'') \<and>
   identify_coral (populate_coral_species []) ''BRANCHING Coral''
     = (Some (insert_row 1 (corals ! 0)), 85.5) \<and>
   common_name (insert_row 1 (corals ! 0)) = ''Staghorn Coral'' \<and>
   morphology (insert_row 1 (corals ! 0)) = ''Branching''"
proof -
  have b: "str_contains ''branch'' (lower ''BRANCHING Coral'')"
    by (simp add: lower_branching)
  from identify_coral_priority [of "''BRANCHING Coral''" "populate_coral_species []"] b
  have "identify_coral (populate_coral_species []) ''BRANCHING Coral''
          = (Some (insert_row 1 (corals ! 0)), 85.5)"
    by blast
  moreover have "common_name (insert_row 1 (corals ! 0)) = ''Staghorn Coral''"
    and "morphology (insert_row 1 (corals ! 0)) = ''Branching''"
    by (simp_all add: corals_def)
  ultimately show ?thesis
    using b by blast
qed

subsection \<open>The populated table always yields a row\<close>

text \<open>
  Claim C10. On the table of nine rows that \<open>populate_coral_species\<close> builds, the
  resolver returns some row with confidence 85.5 for every descriptor, and never
  \<open>(None, 0)\<close>: each of the three morphology queries finds a row, and so does the
  fallback.
\<close>

theorem populated_table_always_matches:
  "(\<exists>r. identify_coral (populate_coral_species []) s = (Some r, 85.5)) \<and>
   identify_coral (populate_coral_species []) s \<noteq> (None, 0) \<and>
   length (populate_coral_species []) = 9"
proof -
  have "\<exists>r. fetch_match (populate_coral_species []) s = Some r"
    unfolding fetch_match_def
    by (simp only: populated_branching populated_boulder populated_plate_table populated_first
        if_distrib [of "\<lambda>x. x = Some _"] split: if_split) blast
  then obtain r where "fetch_match (populate_coral_species []) s = Some r" ..
  then have "identify_coral (populate_coral_species []) s = (Some r, 85.5)"
    by (simp add: identify_coral_def)
  then show ?thesis
    by (simp add: populated_table)
qed

section \<open>Properties of the morphology analysis\<close>

subsection \<open>Auxiliary facts\<close>

lemma max_by_area_mem: "max_by_area best cs \<in> set (best # cs)"
  by (induction cs arbitrary: best) auto

lemma max_by_area_ge:
  "contourArea best \<le> contourArea (max_by_area best cs) \<and>
   (\<forall>c \<in> set cs. contourArea c \<le> contourArea (max_by_area best cs))"
proof (induction cs arbitrary: best)
  case Nil
  show ?case by simp
next
  case (Cons c cs)
  show ?case
  proof (cases "contourArea c > contourArea best")
    case True
    with Cons.IH [of c] show ?thesis by auto
  next
    case False
    with Cons.IH [of best] show ?thesis by auto
  qed
qed

lemma largest_contour:
  assumes "contours \<noteq> []"
  shows "max_by_area (hd contours) (tl contours) \<in> set contours"
    and "\<forall>c \<in> set contours. contourArea c \<le> contourArea (max_by_area (hd contours) (tl contours))"
proof -
  from assms obtain c cs where eq: "contours = c # cs" by (cases contours) auto
  show "max_by_area (hd contours) (tl contours) \<in> set contours"
    unfolding eq using max_by_area_mem [of c cs] by simp
  show "\<forall>c \<in> set contours. contourArea c \<le> contourArea (max_by_area (hd contours) (tl contours))"
    unfolding eq using max_by_area_ge [of c cs] by simp
qed

lemma features_of_lookup:
  "features_of circ ar a n ''circularity'' = Some circ"
  "features_of circ ar a n ''aspect_ratio'' = Some ar"
  "features_of circ ar a n ''area'' = Some a"
  "features_of circ ar a n ''contours_found'' = Some (real n)"
  by (simp_all add: features_of_def)

lemma analyze_morphology_found:
  assumes "find_contours img \<noteq> []"
  shows "analyze_morphology find_contours (Some img) =
           morphology_features
             (max_by_area (hd (find_contours img)) (tl (find_contours img)))
             (length (find_contours img))"
  using assms by (simp add: analyze_morphology_def analyze_contours_def)

lemma segment_length_axis:
  "segment_length x 0 = \<bar>x\<bar>" "segment_length 0 y = \<bar>y\<bar>"
  by (simp_all add: segment_length_def)

lemma l_shape_measures:
  "contourArea l_shape = 22434" "arcLength l_shape = 830"
  "boundingRect l_shape = (0, 0, 167, 250)"
  by (simp_all add: contourArea_def arcLength_def l_shape_def segment_length_axis)

lemma l_shape_circularity:
  "circularity_of (contourArea l_shape) (arcLength l_shape) = 22434 * pi / 172225"
  by (simp add: l_shape_measures circularity_of_def)

lemma pi_ge_three: "3 \<le> pi"
proof -
  have "sin (pi / 6) \<le> pi / 6"
    by (rule sin_x_le_x) simp
  then show ?thesis
    by (simp add: sin_30)
qed

lemma l_shape_circularity_bounds:
  "0.3 \<le> 22434 * pi / 172225" "22434 * pi / 172225 < 0.6"
  using pi_ge_three pi_less_4 by simp_all

lemma analyze_morphology_l_shape:
  "analyze_morphology find_l_shape (Some ()) =
     (''Plate/Table'', features_of (22434 * pi / 172225) (167 / 250) 22434 1)"
proof -
  have "analyze_morphology find_l_shape (Some ()) = morphology_features l_shape 1"
    by (simp add: analyze_morphology_def analyze_contours_def find_l_shape_def)
  also have "\<dots> = (morphology_of (22434 * pi / 172225) (167 / 250),
                    features_of (22434 * pi / 172225) (167 / 250) 22434 1)"
    unfolding morphology_features_def l_shape_circularity
    by (simp add: l_shape_measures)
  also have "morphology_of (22434 * pi / 172225) (167 / 250) = ''Plate/Table''"
    using l_shape_circularity_bounds by (simp add: morphology_of_def)
  finally show ?thesis .
qed

lemma morphology_of_rule:
  "circ < 0.3 \<longrightarrow> morphology_of circ ar = ''Branching''"
  "0.3 \<le> circ \<and> circ < 0.6 \<and> (ar > 1.5 \<or> ar < 0.67) \<longrightarrow>
     morphology_of circ ar = ''Plate/Table''"
  "0.3 \<le> circ \<and> circ < 0.6 \<and> ar \<le> 1.5 \<and> 0.67 \<le> ar \<longrightarrow>
     morphology_of circ ar = ''Boulder''"
  "0.6 \<le> circ \<longrightarrow> morphology_of circ ar = ''Encrusting''"
  by (auto simp add: morphology_of_def)

subsection \<open>Classification rule\<close>

text \<open>
  Claim C4 as stated fails: the code compares the aspect ratio with 0.67, not with
  0.667. The L-shaped contour has circularity about 0.41 and aspect ratio
  167 / 250 = 0.668, which is neither above 1.5 nor below 0.667, and the label is
  Plate/Table, not Boulder.
\<close>

theorem morphology_rule_counterexample:
  "find_l_shape () \<noteq> [] \<and>
   snd (analyze_morphology find_l_shape (Some ())) ''circularity'' = Some (22434 * pi / 172225) \<and>
   0.3 \<le> 22434 * pi / 172225 \<and> 22434 * pi / 172225 < 0.6 \<and>
   snd (analyze_morphology find_l_shape (Some ())) ''aspect_ratio'' = Some (167 / 250) \<and>
   (167 / 250 :: real) \<le> 1.5 \<and> (0.667 :: real) \<le> 167 / 250 \<and>
   fst (analyze_morphology find_l_shape (Some ())) = ''Plate/Table'' \<and>
   ''Plate/Table'' \<noteq> ''Boulder''"
  using l_shape_circularity_bounds
  by (simp add: analyze_morphology_l_shape features_of_lookup find_l_shape_def)

text \<open>
  Claim C4, amended. When a contour is found, the label is determined from the features
  of a contour of largest area: circularity below 0.3 gives Branching; circularity in
  [0.3, 0.6) gives Plate/Table when the aspect ratio is above 1.5 or below 0.67 and
  Boulder otherwise; circularity of 0.6 or more gives Encrusting.
\<close>

theorem morphology_label_rule:
  assumes "find_contours img \<noteq> []"
  shows "\<exists>largest \<in> set (find_contours img). \<exists>circ ar.
           (\<forall>c \<in> set (find_contours img). contourArea c \<le> contourArea largest) \<and>
           circ = circularity_of (contourArea largest) (arcLength largest) \<and>
           ar = aspect_ratio_of (boundingRect largest) \<and>
           snd (analyze_morphology find_contours (Some img)) ''circularity'' = Some circ \<and>
           snd (analyze_morphology find_contours (Some img)) ''aspect_ratio'' = Some ar \<and>
           (circ < 0.3 \<longrightarrow> fst (analyze_morphology find_contours (Some img)) = ''Branching'') \<and>
           (0.3 \<le> circ \<and> circ < 0.6 \<and> (ar > 1.5 \<or> ar < 0.67) \<longrightarrow>
              fst (analyze_morphology find_contours (Some img)) = ''Plate/Table'') \<and>
           (0.3 \<le> circ \<and> circ < 0.6 \<and> ar \<le> 1.5 \<and> 0.67 \<le> ar \<longrightarrow>
              fst (analyze_morphology find_contours (Some img)) = ''Boulder'') \<and>
           (0.6 \<le> circ \<longrightarrow> fst (analyze_morphology find_contours (Some img)) = ''Encrusting'')"
proof -
  let ?L = "max_by_area (hd (find_contours img)) (tl (find_contours img))"
  let ?circ = "circularity_of (contourArea ?L) (arcLength ?L)"
  let ?ar = "aspect_ratio_of (boundingRect ?L)"
  note L = largest_contour [OF assms]
  have res: "analyze_morphology find_contours (Some img) =
               (morphology_of ?circ ?ar,
                features_of ?circ ?ar (contourArea ?L) (length (find_contours img)))"
    using assms
    by (simp add: analyze_morphology_def analyze_contours_def morphology_features_def)
  show ?thesis
  proof (rule bexI [of _ ?L], rule exI [of _ ?circ], rule exI [of _ ?ar], intro conjI)
    show "?L \<in> set (find_contours img)" by (rule L(1))
    show "\<forall>c \<in> set (find_contours img). contourArea c \<le> contourArea ?L" by (rule L(2))
    show "snd (analyze_morphology find_contours (Some img)) ''circularity'' = Some ?circ"
      and "snd (analyze_morphology find_contours (Some img)) ''aspect_ratio'' = Some ?ar"
      unfolding res by (simp_all add: features_of_lookup)
    show "?circ < 0.3 \<longrightarrow> fst (analyze_morphology find_contours (Some img)) = ''Branching''"
      unfolding res fst_conv by (rule morphology_of_rule)
    show "0.3 \<le> ?circ \<and> ?circ < 0.6 \<and> (?ar > 1.5 \<or> ?ar < 0.67) \<longrightarrow>
            fst (analyze_morphology find_contours (Some img)) = ''Plate/Table''"
      unfolding res fst_conv by (rule morphology_of_rule)
    show "0.3 \<le> ?circ \<and> ?circ < 0.6 \<and> ?ar \<le> 1.5 \<and> 0.67 \<le> ?ar \<longrightarrow>
            fst (analyze_morphology find_contours (Some img)) = ''Boulder''"
      unfolding res fst_conv by (rule morphology_of_rule)
    show "0.6 \<le> ?circ \<longrightarrow> fst (analyze_morphology find_contours (Some img)) = ''Encrusting''"
      unfolding res fst_conv by (rule morphology_of_rule)
  qed (rule refl)+
qed

theorem morphology_label_rule_witness:
  "find_l_shape () \<noteq> [] \<and>
   snd (analyze_morphology find_l_shape (Some ())) ''aspect_ratio'' = Some (167 / 250) \<and>
   (167 / 250 :: real) < 0.67 \<and>
   fst (analyze_morphology find_l_shape (Some ())) = ''Plate/Table''"
  using morphology_label_rule [of find_l_shape "()"]
  by (simp add: analyze_morphology_l_shape features_of_lookup find_l_shape_def)

section \<open>The isoperimetric inequality for closed polygons\<close>

text \<open>
  The circularity computed by the morphology analysis is at most 1 because the area
  and the perimeter come from the same closed polygon. The proof compares the polygon
  with a disc of the radius \<open>r\<close> of its half width, edge by edge: along an edge, the
  growth of the area plus the growth of the area under the half circle is at most
  \<open>r\<close> times the length of the edge.
\<close>

subsection \<open>The area under the half circle\<close>

lemma half_disc_deriv:
  assumes "- 1 < s" "s < 1"
  shows "(half_disc has_real_derivative sqrt (1 - s\<^sup>2)) (at s)"
proof -
  have s2: "s\<^sup>2 < 1"
    using assms by (simp add: abs_square_less_1 abs_less_iff)
  define w where "w = sqrt (1 - s\<^sup>2)"
  have w: "0 < w" "w * w = 1 - s\<^sup>2"
    using s2 by (simp_all add: w_def)
  have d: "((\<lambda>s. (s * sqrt (1 - s\<^sup>2) + arcsin s) / 2) has_real_derivative
          (1 * sqrt (1 - s\<^sup>2) + s * ((0 - 2 * s) * (inverse (sqrt (1 - s\<^sup>2)) / 2))
            + inverse (sqrt (1 - s\<^sup>2))) / 2) (at s)"
    using s2 assms
    by (auto intro!: derivative_eq_intros simp add: power2_eq_square)
  have e: "(1 * sqrt (1 - s\<^sup>2) + s * ((0 - 2 * s) * (inverse (sqrt (1 - s\<^sup>2)) / 2))
            + inverse (sqrt (1 - s\<^sup>2))) / 2 = sqrt (1 - s\<^sup>2)"
  proof -
    have "(1 * w + s * ((0 - 2 * s) * (inverse w / 2)) + inverse w) / 2
            = (w * w + (1 - s\<^sup>2)) / (2 * w)"
      using w(1) by (simp add: field_simps power2_eq_square)
    also have "\<dots> = w"
      using w by (simp add: field_simps)
    finally show ?thesis unfolding w_def .
  qed
  from d show ?thesis
    unfolding half_disc_def [abs_def] e .
qed

lemma half_disc_continuous: "continuous_on {- 1 .. 1} half_disc"
  unfolding half_disc_def [abs_def]
  by (intro continuous_intros continuous_on_arcsin') simp_all

lemma cauchy_schwarz_unit:
  fixes a b c d :: real
  assumes "a\<^sup>2 + b\<^sup>2 = 1"
  shows "a * c + b * d \<le> sqrt (c\<^sup>2 + d\<^sup>2)"
proof -
  have "(a * c + b * d)\<^sup>2 + (a * d - b * c)\<^sup>2 = (a\<^sup>2 + b\<^sup>2) * (c\<^sup>2 + d\<^sup>2)"
    by (simp add: power2_eq_square algebra_simps)
  then have "(a * c + b * d)\<^sup>2 + (a * d - b * c)\<^sup>2 = c\<^sup>2 + d\<^sup>2"
    using assms by simp
  then have "(a * c + b * d)\<^sup>2 \<le> c\<^sup>2 + d\<^sup>2"
    using zero_le_power2 [of "a * d - b * c"] by linarith
  then have "sqrt ((a * c + b * d)\<^sup>2) \<le> sqrt (c\<^sup>2 + d\<^sup>2)"
    by (rule real_sqrt_le_mono)
  then show ?thesis by simp
qed

lemma edge_unit:
  assumes u: "- 1 \<le> u" "u \<le> 1" and v: "- 1 \<le> v" "v \<le> 1"
  shows "(u + v) / 2 * dy + (half_disc v - half_disc u) \<le> sqrt ((v - u)\<^sup>2 + dy\<^sup>2)"
proof (cases "u = v")
  case True
  have "u * dy \<le> \<bar>u * dy\<bar>" by simp
  also have "\<dots> = \<bar>u\<bar> * \<bar>dy\<bar>" by (simp add: abs_mult)
  also have "\<dots> \<le> 1 * \<bar>dy\<bar>"
    using u by (intro mult_right_mono) simp_all
  finally show ?thesis using True by simp
next
  case False
  define l where "l = sqrt ((v - u)\<^sup>2 + dy\<^sup>2)"
  define x where "x t = u + t * (v - u)" for t
  define G where "G t = l * t - dy * (u * t + t\<^sup>2 * (v - u) / 2) - half_disc (x t)" for t
  have inside: "- 1 < x t \<and> x t < 1" if t: "0 < t" "t < 1" for t
  proof (cases "u < v")
    case True
    then have "0 < t * (v - u)" "t * (v - u) < v - u"
      using t by simp_all
    then show ?thesis unfolding x_def using u v by (intro conjI; linarith)
  next
    case F: False
    with False have "v < u" by simp
    then have "0 < t * (u - v)" "t * (u - v) < u - v"
      using t by simp_all
    then have "t * (v - u) < 0" "v - u < t * (v - u)"
      by (simp_all add: algebra_simps)
    then show ?thesis unfolding x_def using u v by (intro conjI; linarith)
  qed
  have range: "x t \<in> {- 1 .. 1}" if "t \<in> {0 .. 1}" for t
  proof -
    from that have t: "0 \<le> t" "t \<le> 1" by simp_all
    have "x t = (1 - t) * u + t * v" by (simp add: x_def algebra_simps)
    moreover have "(1 - t) * (- 1) \<le> (1 - t) * u"
      by (rule mult_left_mono) (use t u in simp_all)
    moreover have "(1 - t) * u \<le> (1 - t) * 1"
      by (rule mult_left_mono) (use t u in simp_all)
    moreover have "t * (- 1) \<le> t * v"
      by (rule mult_left_mono) (use t v in simp_all)
    moreover have "t * v \<le> t * 1"
      by (rule mult_left_mono) (use t v in simp_all)
    ultimately show ?thesis by simp
  qed
  have "G 0 \<le> G 1"
  proof (rule DERIV_nonneg_imp_increasing_open [of 0 1 G])
    show "(0::real) \<le> 1" by simp
    show "continuous_on {0 .. 1} G"
      unfolding G_def [abs_def]
    proof (intro continuous_intros)
      show "continuous_on {0 .. 1} (\<lambda>t. half_disc (x t))"
      proof (rule continuous_on_compose2 [OF half_disc_continuous])
        show "continuous_on {0 .. 1} x"
          unfolding x_def [abs_def] by (intro continuous_intros)
        show "x ` {0 .. 1} \<subseteq> {- 1 .. 1}"
          using range by blast
      qed
    qed simp
    fix t :: real
    assume t: "0 < t" "t < 1"
    note i = inside [OF t]
    define w where "w = sqrt (1 - (x t)\<^sup>2)"
    have "(x t)\<^sup>2 < 1"
      using i by (simp add: abs_square_less_1 abs_less_iff)
    then have w2: "(x t)\<^sup>2 + w\<^sup>2 = 1"
      by (simp add: w_def)
    have dx: "(x has_real_derivative (v - u)) (at t)"
      unfolding x_def [abs_def] by (auto intro!: derivative_eq_intros)
    have dh: "((\<lambda>t. half_disc (x t)) has_real_derivative w * (v - u)) (at t)"
      unfolding w_def
      by (rule DERIV_chain2 [OF half_disc_deriv dx]) (use i in simp_all)
    have dG: "(G has_real_derivative (l * 1 - dy * (u * 1 + 2 * t * (v - u) / 2) - w * (v - u))) (at t)"
      unfolding G_def [abs_def]
      by (rule derivative_eq_intros dh refl | simp)+
    have eq: "l * 1 - dy * (u * 1 + 2 * t * (v - u) / 2) - w * (v - u)
                     = l - (x t * dy + w * (v - u))"
      by (simp add: x_def field_simps)
    have "x t * dy + w * (v - u) \<le> l"
      unfolding l_def using cauchy_schwarz_unit [OF w2, of dy "v - u"]
      by (simp add: add.commute)
    then have "0 \<le> l - (x t * dy + w * (v - u))"
      by simp
    with dG [unfolded eq] show "\<exists>y. (G has_real_derivative y) (at t) \<and> 0 \<le> y"
      by blast
  qed
  then show ?thesis
    unfolding G_def x_def l_def by (simp add: field_simps)
qed

lemma edge_unit_abs:
  assumes u: "\<bar>u\<bar> \<le> 1" and v: "\<bar>v\<bar> \<le> 1"
  shows "\<bar>(u + v) / 2 * dy\<bar> + \<bar>half_disc v - half_disc u\<bar> \<le> sqrt ((v - u)\<^sup>2 + dy\<^sup>2)"
proof -
  from u v have b: "- 1 \<le> u" "u \<le> 1" "- 1 \<le> v" "v \<le> 1"
    by simp_all
  have sym: "(u - v)\<^sup>2 = (v - u)\<^sup>2"
    by (rule power2_commute)
  have 1: "(u + v) / 2 * dy + (half_disc v - half_disc u) \<le> sqrt ((v - u)\<^sup>2 + dy\<^sup>2)"
    by (rule edge_unit [OF b])
  have 2: "- ((u + v) / 2 * dy) + (half_disc v - half_disc u) \<le> sqrt ((v - u)\<^sup>2 + dy\<^sup>2)"
    using edge_unit [OF b, of "- dy"] by simp
  have 3: "(u + v) / 2 * dy - (half_disc v - half_disc u) \<le> sqrt ((v - u)\<^sup>2 + dy\<^sup>2)"
    using edge_unit [OF b(3,4) b(1,2), of dy] unfolding sym by (simp add: add.commute)
  have 4: "- ((u + v) / 2 * dy) - (half_disc v - half_disc u) \<le> sqrt ((v - u)\<^sup>2 + dy\<^sup>2)"
    using edge_unit [OF b(3,4) b(1,2), of "- dy"] unfolding sym by (simp add: add.commute)
  from 1 2 3 4 show ?thesis
    by linarith
qed

lemma edge_scaled:
  assumes r: "0 < r" and u: "\<bar>u\<bar> \<le> r" and v: "\<bar>v\<bar> \<le> r"
  shows "\<bar>(u + v) / 2 * dy\<bar> + r\<^sup>2 * \<bar>half_disc (v / r) - half_disc (u / r)\<bar>
           \<le> r * sqrt ((v - u)\<^sup>2 + dy\<^sup>2)"
proof -
  have "\<bar>u / r\<bar> \<le> 1" "\<bar>v / r\<bar> \<le> 1"
    using r u v by simp_all
  from edge_unit_abs [OF this, of "dy / r"]
  have e: "\<bar>(u / r + v / r) / 2 * (dy / r)\<bar> + \<bar>half_disc (v / r) - half_disc (u / r)\<bar>
          \<le> sqrt ((v / r - u / r)\<^sup>2 + (dy / r)\<^sup>2)" .
  have "(v / r - u / r)\<^sup>2 + (dy / r)\<^sup>2 = ((v - u)\<^sup>2 + dy\<^sup>2) / r\<^sup>2"
    by (simp add: power_divide diff_divide_distrib [symmetric] add_divide_distrib)
  then have s: "sqrt ((v / r - u / r)\<^sup>2 + (dy / r)\<^sup>2) = sqrt ((v - u)\<^sup>2 + dy\<^sup>2) / r"
    using r by (simp add: real_sqrt_divide)
  have "(u / r + v / r) / 2 * (dy / r) = ((u + v) / 2 * dy) / r\<^sup>2"
    using r by (simp add: power2_eq_square field_simps)
  then have a: "\<bar>(u / r + v / r) / 2 * (dy / r)\<bar> = \<bar>(u + v) / 2 * dy\<bar> / r\<^sup>2"
    by (simp only: abs_divide abs_power2)
  have "r\<^sup>2 * (\<bar>(u + v) / 2 * dy\<bar> / r\<^sup>2 + \<bar>half_disc (v / r) - half_disc (u / r)\<bar>)
          \<le> r\<^sup>2 * (sqrt ((v - u)\<^sup>2 + dy\<^sup>2) / r)"
    using e unfolding s a by (intro mult_left_mono) simp_all
  then show ?thesis
    using r by (simp add: algebra_simps power2_eq_square)
qed

lemma half_disc_ends: "half_disc 1 - half_disc (- 1) = pi / 2"
  by (simp add: half_disc_def)

subsection \<open>Sums over the edges of a path\<close>

lemma edge_sum_add:
  "edge_sum (\<lambda>p q. f p q + g p q) ps = edge_sum f ps + edge_sum g ps"
  by (induction f ps rule: edge_sum.induct) simp_all

lemma edge_sum_cmult:
  "edge_sum (\<lambda>p q. c * f p q) ps = c * edge_sum f ps"
  by (induction f ps rule: edge_sum.induct) (simp_all add: algebra_simps)

lemma edge_sum_mono:
  assumes "\<And>p q. p \<in> set ps \<Longrightarrow> q \<in> set ps \<Longrightarrow> f p q \<le> g p q"
  shows "edge_sum f ps \<le> edge_sum g ps"
  using assms
proof (induction f ps rule: edge_sum.induct)
  case (3 f p q ps)
  have "f p q \<le> g p q"
    by (rule 3) simp_all
  moreover have "edge_sum f (q # ps) \<le> edge_sum g (q # ps)"
    by (rule "3.IH") (rule 3, simp_all)
  ultimately show ?case by simp
qed simp_all

lemma edge_sum_cong:
  assumes "\<And>p q. p \<in> set ps \<Longrightarrow> q \<in> set ps \<Longrightarrow> f p q = g p q"
  shows "edge_sum f ps = edge_sum g ps"
proof (rule antisym)
  show "edge_sum f ps \<le> edge_sum g ps"
    by (rule edge_sum_mono) (simp add: assms)
  show "edge_sum g ps \<le> edge_sum f ps"
    by (rule edge_sum_mono) (simp add: assms)
qed

lemma edge_sum_telescope:
  "ps \<noteq> [] \<Longrightarrow> edge_sum (\<lambda>p q. h q - h p) ps = h (last ps) - h (hd ps)"
  by (induction "\<lambda>p q. h q - h p :: real" ps rule: edge_sum.induct) simp_all

lemma edge_sum_abs:
  "\<bar>edge_sum f ps\<bar> \<le> edge_sum (\<lambda>p q. \<bar>f p q\<bar>) ps"
  by (induction f ps rule: edge_sum.induct) simp_all

lemma edge_sum_nonneg:
  assumes "\<And>p q. 0 \<le> f p q"
  shows "0 \<le> edge_sum f ps"
  by (induction ps rule: induct_list012) (simp_all add: assms)

lemma edge_sum_append:
  "edge_sum f (xs @ p # ys) = edge_sum f (xs @ [p]) + edge_sum f (p # ys)"
proof (induction f xs rule: edge_sum.induct)
  case (1 f)
  show ?case by simp
next
  case (2 f x)
  show ?case by simp
next
  case (3 f x y xs)
  then show ?case by simp
qed

lemma edge_sum_map:
  "edge_sum f (map g ps) = edge_sum (\<lambda>p q. f (g p) (g q)) ps"
  by (induction "\<lambda>p q. f (g p) (g q)" ps rule: edge_sum.induct) simp_all

lemma variation_ends:
  assumes "ps \<noteq> []"
  shows "\<bar>h (last ps) - h (hd ps)\<bar> \<le> edge_sum (\<lambda>p q. \<bar>h q - h p\<bar>) ps"
  using edge_sum_abs [of "\<lambda>p q. h q - h p" ps] edge_sum_telescope [OF assms, of h]
  by simp

lemma variation_via:
  assumes "c \<in> set ps"
  shows "\<bar>h c - h (hd ps)\<bar> + \<bar>h (last ps) - h c\<bar> \<le> edge_sum (\<lambda>p q. \<bar>h q - h p\<bar>) ps"
proof -
  from assms obtain xs ys where ps: "ps = xs @ c # ys"
    by (auto dest: split_list)
  have "\<bar>h (last (xs @ [c])) - h (hd (xs @ [c]))\<bar> \<le> edge_sum (\<lambda>p q. \<bar>h q - h p\<bar>) (xs @ [c])"
    by (rule variation_ends) simp
  moreover have "\<bar>h (last (c # ys)) - h (hd (c # ys))\<bar> \<le> edge_sum (\<lambda>p q. \<bar>h q - h p\<bar>) (c # ys)"
    by (rule variation_ends) simp
  moreover have "hd (xs @ [c]) = hd ps" "last (c # ys) = last ps"
    unfolding ps by (cases xs; simp)+
  ultimately show ?thesis
    unfolding ps edge_sum_append [of _ xs c ys] by simp
qed

lemma variation_closed:
  assumes closed: "hd ps = last ps" and a: "a \<in> set ps" and b: "b \<in> set ps"
  shows "2 * \<bar>h b - h a\<bar> \<le> edge_sum (\<lambda>p q. \<bar>h q - h p\<bar>) ps"
proof -
  let ?tv = "edge_sum (\<lambda>p q. \<bar>h q - h p\<bar>)"
  from a obtain xs ys where ps: "ps = xs @ a # ys"
    by (auto dest: split_list)
  have ends: "hd (xs @ [a]) = hd ps" "last (a # ys) = last ps"
    unfolding ps by (cases xs; simp)+
  have split: "?tv ps = ?tv (xs @ [a]) + ?tv (a # ys)"
    unfolding ps by (rule edge_sum_append)
  have tri: "\<bar>h b - h a\<bar> \<le> \<bar>h b - h (last ps)\<bar> + \<bar>h (last ps) - h a\<bar>"
    "\<bar>h b - h a\<bar> \<le> \<bar>h a - h (last ps)\<bar> + \<bar>h (last ps) - h b\<bar>"
    "\<bar>h a - h b\<bar> = \<bar>h b - h a\<bar>"
    by simp_all
  from b have "b \<in> set (xs @ [a]) \<or> b \<in> set (a # ys)"
    unfolding ps by auto
  then show ?thesis
  proof
    assume "b \<in> set (xs @ [a])"
    from variation_via [OF this, of h] variation_ends [of "a # ys" h]
    have "\<bar>h b - h (hd ps)\<bar> + \<bar>h a - h b\<bar> \<le> ?tv (xs @ [a])"
      and "\<bar>h (last ps) - h a\<bar> \<le> ?tv (a # ys)"
      unfolding ends by simp_all
    then show ?thesis
      unfolding split closed using tri by linarith
  next
    assume "b \<in> set (a # ys)"
    from variation_via [OF this, of h] variation_ends [of "xs @ [a]" h]
    have "\<bar>h b - h a\<bar> + \<bar>h (last ps) - h b\<bar> \<le> ?tv (a # ys)"
      and "\<bar>h a - h (hd ps)\<bar> \<le> ?tv (xs @ [a])"
      unfolding ends by simp_all
    then show ?thesis
      unfolding split closed using tri by linarith
  qed
qed

subsection \<open>Closed paths\<close>

lemma edge_sum_zero: "edge_sum (\<lambda>p q. 0) ps = 0"
  by (induction ps rule: induct_list012) simp_all

lemma edge_length_nonneg: "0 \<le> edge_length p q"
  by (simp add: edge_length_def segment_length_def)

lemma closed_path_isoperimetric:
  assumes ne: "ps \<noteq> []" and closed: "hd ps = last ps"
  shows "2 * pi * \<bar>edge_sum edge_cross ps\<bar> \<le> (edge_sum edge_length ps)\<^sup>2"
proof -
  define a where "a = Min (fst ` set ps)"
  define b where "b = Max (fst ` set ps)"
  define m where "m = (a + b) / 2"
  define r where "r = (b - a) / 2"
  define u where "u p = fst p - m" for p :: "real \<times> real"
  define L where "L = edge_sum edge_length ps"
  define trap where "trap p q = (u p + u q) * (snd q - snd p)" for p q :: "real \<times> real"
  have fin: "finite (fst ` set ps)" "fst ` set ps \<noteq> {}"
    using ne by simp_all
  from Min_in [OF fin] obtain pa where pa: "pa \<in> set ps" "fst pa = a"
    unfolding a_def by auto
  from Max_in [OF fin] obtain pb where pb: "pb \<in> set ps" "fst pb = b"
    unfolding b_def by auto
  have range: "a \<le> fst p" "fst p \<le> b" if "p \<in> set ps" for p
    using that fin(1) unfolding a_def b_def by simp_all
  have u_range: "\<bar>u p\<bar> \<le> r" if "p \<in> set ps" for p
    using range [OF that] unfolding u_def m_def r_def by (simp add: abs_le_iff field_simps)
  have u_ends: "u pa = - r" "u pb = r"
    unfolding u_def m_def r_def using pa(2) pb(2) by (simp_all add: field_simps)
  have L0: "0 \<le> L"
    unfolding L_def by (rule edge_sum_nonneg) (rule edge_length_nonneg)
  define k where "k p = fst p * snd p - 2 * m * snd p" for p :: "real \<times> real"
  have "trap = (\<lambda>p q. edge_cross p q + (k q - k p))"
    unfolding trap_def u_def edge_cross_def k_def by (intro ext) (simp add: algebra_simps)
  then have "edge_sum trap ps = edge_sum edge_cross ps + edge_sum (\<lambda>p q. k q - k p) ps"
    by (simp only: edge_sum_add)
  also have "edge_sum (\<lambda>p q. k q - k p) ps = 0"
    using edge_sum_telescope [OF ne, of k] closed by simp
  finally have area: "edge_sum edge_cross ps = edge_sum trap ps"
    by simp
  show ?thesis
  proof (cases "r = 0")
    case True
    have "edge_sum trap ps = edge_sum (\<lambda>p q. 0) ps"
    proof (rule edge_sum_cong)
      fix p q assume "p \<in> set ps" "q \<in> set ps"
      from u_range [OF this(1)] u_range [OF this(2)] True
      show "trap p q = 0" unfolding trap_def by simp
    qed
    then have "edge_sum edge_cross ps = 0"
      unfolding area by (simp add: edge_sum_zero)
    then show ?thesis by simp
  next
    case False
    have "a \<le> b" using range [OF pa(1)] pa(2) by simp
    with False have r: "0 < r" unfolding r_def by simp
    define g where "g p = half_disc (u p / r)" for p
    define T where "T = edge_sum (\<lambda>p q. \<bar>(u p + u q) / 2 * (snd q - snd p)\<bar>) ps"
    define V where "V = edge_sum (\<lambda>p q. \<bar>g q - g p\<bar>) ps"
    have "edge_sum (\<lambda>p q. \<bar>(u p + u q) / 2 * (snd q - snd p)\<bar> + r\<^sup>2 * \<bar>g q - g p\<bar>) ps
            \<le> edge_sum (\<lambda>p q. r * edge_length p q) ps"
    proof (rule edge_sum_mono)
      fix p q assume pq: "p \<in> set ps" "q \<in> set ps"
      have "(u q - u p)\<^sup>2 + (snd q - snd p)\<^sup>2
              = (fst q - fst p) * (fst q - fst p) + (snd q - snd p) * (snd q - snd p)"
        unfolding u_def by (simp add: power2_eq_square)
      then have "sqrt ((u q - u p)\<^sup>2 + (snd q - snd p)\<^sup>2) = edge_length p q"
        unfolding edge_length_def segment_length_def by simp
      with edge_scaled [OF r u_range [OF pq(1)] u_range [OF pq(2)], of "snd q - snd p"]
      show "\<bar>(u p + u q) / 2 * (snd q - snd p)\<bar> + r\<^sup>2 * \<bar>g q - g p\<bar> \<le> r * edge_length p q"
        unfolding g_def by simp
    qed
    then have sum: "T + r\<^sup>2 * V \<le> r * L"
      unfolding T_def V_def L_def by (simp add: edge_sum_add edge_sum_cmult)
    have "2 * \<bar>g pb - g pa\<bar> \<le> V"
      unfolding V_def by (rule variation_closed [OF closed pa(1) pb(1)])
    moreover have "g pb - g pa = pi / 2"
      unfolding g_def u_ends using r half_disc_ends by simp
    ultimately have V: "pi \<le> V"
      by simp
    have abs_trap: "(\<lambda>p q. \<bar>trap p q\<bar>) = (\<lambda>p q. 2 * \<bar>(u p + u q) / 2 * (snd q - snd p)\<bar>)"
      unfolding trap_def by (simp add: abs_mult)
    have "\<bar>edge_sum edge_cross ps\<bar> \<le> edge_sum (\<lambda>p q. \<bar>trap p q\<bar>) ps"
      unfolding area by (rule edge_sum_abs)
    also have "\<dots> = 2 * T"
      unfolding abs_trap T_def by (rule edge_sum_cmult)
    finally have A: "\<bar>edge_sum edge_cross ps\<bar> \<le> 2 * T" .
    define A2 where "A2 = \<bar>edge_sum edge_cross ps\<bar>"
    have A2: "0 \<le> A2" "A2 \<le> 2 * T"
      unfolding A2_def using A by simp_all
    have "r\<^sup>2 * pi \<le> r\<^sup>2 * V"
      using V by (intro mult_left_mono) simp_all
    with sum A2 have le: "A2 / 2 + pi * r\<^sup>2 \<le> r * L"
      by (simp add: mult.commute)
    have nn: "0 \<le> A2 / 2 + pi * r\<^sup>2"
      using A2(1) by simp
    have "2 * pi * A2 * r\<^sup>2 = (A2 / 2 + pi * r\<^sup>2)\<^sup>2 - (A2 / 2 - pi * r\<^sup>2)\<^sup>2"
      by (simp add: power2_eq_square algebra_simps)
    also have "\<dots> \<le> (A2 / 2 + pi * r\<^sup>2)\<^sup>2"
      by simp
    also have "\<dots> \<le> (r * L)\<^sup>2"
      using nn le by (rule power_mono [OF _ _, rotated]) 
    also have "\<dots> = L\<^sup>2 * r\<^sup>2"
      by (simp add: power_mult_distrib mult.commute)
    finally have "2 * pi * A2 * r\<^sup>2 \<le> L\<^sup>2 * r\<^sup>2" .
    then have "2 * pi * A2 \<le> L\<^sup>2"
      using r by simp
    then show ?thesis
      unfolding A2_def L_def .
  qed
qed

section \<open>The range of the circularity\<close>

lemma area_loop_edge_sum:
  "area_loop prev ps a00 = a00 + edge_sum edge_cross (map real_point (prev # ps))"
proof (induction ps arbitrary: prev a00)
  case Nil
  show ?case by simp
next
  case (Cons p ps)
  obtain x y where prev: "prev = (x, y)" by (cases prev)
  obtain x' y' where p: "p = (x', y')" by (cases p)
  show ?case
    by (simp add: Cons.IH prev p edge_cross_def)
qed

lemma arc_loop_edge_sum:
  "arc_loop prev ps perimeter = perimeter + edge_sum edge_length (map real_point (prev # ps))"
proof (induction ps arbitrary: prev perimeter)
  case Nil
  show ?case by simp
next
  case (Cons p ps)
  obtain x y where prev: "prev = (x, y)" by (cases prev)
  obtain x' y' where p: "p = (x', y')" by (cases p)
  show ?case
    by (simp add: Cons.IH prev p edge_length_def)
qed

lemma contour_isoperimetric: "4 * pi * contourArea c \<le> arcLength c * arcLength c"
proof (cases "length c \<le> 1")
  case True
  then consider "c = []" | p where "c = [p]"
    by (cases c) (auto simp add: Suc_le_eq)
  then show ?thesis
  proof cases
    case 1
    then show ?thesis by (simp add: contourArea_def arcLength_def)
  next
    case 2
    then show ?thesis
      by (simp add: contourArea_def arcLength_def)
  qed
next
  case False
  then have ne: "c \<noteq> []" by auto
  let ?path = "map real_point (last c # c)"
  have closed: "hd ?path = last ?path"
    using ne by (simp add: last_map)
  have a: "contourArea c = \<bar>edge_sum edge_cross ?path\<bar> / 2"
    using ne by (simp add: contourArea_def area_loop_edge_sum)
  have l: "arcLength c = edge_sum edge_length ?path"
    using False by (simp add: arcLength_def arc_loop_edge_sum)
  from closed_path_isoperimetric [OF _ closed]
  have "2 * pi * \<bar>edge_sum edge_cross ?path\<bar> \<le> (edge_sum edge_length ?path)\<^sup>2"
    by simp
  then show ?thesis
    unfolding a l by (simp add: power2_eq_square)
qed

lemma contourArea_nonneg: "0 \<le> contourArea c"
  by (simp add: contourArea_def)

lemma circularity_of_contour:
  "0 \<le> circularity_of (contourArea c) (arcLength c)"
  "circularity_of (contourArea c) (arcLength c) \<le> 1"
proof -
  show "0 \<le> circularity_of (contourArea c) (arcLength c)"
    using contourArea_nonneg [of c] by (simp add: circularity_of_def)
  show "circularity_of (contourArea c) (arcLength c) \<le> 1"
  proof (cases "arcLength c > 0")
    case True
    then have "0 < arcLength c * arcLength c" by simp
    with contour_isoperimetric [of c] True show ?thesis
      by (simp add: circularity_of_def)
  next
    case False
    then show ?thesis by (simp add: circularity_of_def)
  qed
qed

text \<open>
  Claim C7. When a contour is found, the circularity stored in the features is
  \<open>4 * pi * area / perimeter\<^sup>2\<close> of a contour of largest area, and 0 when the perimeter
  is 0; it lies in [0, 1], so that capping it at 1 changes nothing. The code applies no
  explicit minimum with 1: the upper bound holds because the area and the perimeter
  are those of one closed polygon.
\<close>

theorem circularity_in_unit_interval:
  assumes "find_contours img \<noteq> []"
  shows "\<exists>largest \<in> set (find_contours img). \<exists>circ.
           (\<forall>c \<in> set (find_contours img). contourArea c \<le> contourArea largest) \<and>
           snd (analyze_morphology find_contours (Some img)) ''circularity'' = Some circ \<and>
           circ = (if arcLength largest > 0
                   then 4 * pi * contourArea largest / (arcLength largest)\<^sup>2 else 0) \<and>
           circ = min 1 circ \<and> 0 \<le> circ \<and> circ \<le> 1"
proof -
  let ?L = "max_by_area (hd (find_contours img)) (tl (find_contours img))"
  let ?circ = "circularity_of (contourArea ?L) (arcLength ?L)"
  note L = largest_contour [OF assms]
  have res: "snd (analyze_morphology find_contours (Some img)) ''circularity'' = Some ?circ"
    using assms
    by (simp add: analyze_morphology_def analyze_contours_def morphology_features_def
        features_of_lookup)
  show ?thesis
  proof (rule bexI [of _ ?L], rule exI [of _ ?circ], intro conjI)
    show "?L \<in> set (find_contours img)" by (rule L(1))
    show "\<forall>c \<in> set (find_contours img). contourArea c \<le> contourArea ?L" by (rule L(2))
    show "snd (analyze_morphology find_contours (Some img)) ''circularity'' = Some ?circ"
      by (rule res)
    show "?circ = (if arcLength ?L > 0
                   then 4 * pi * contourArea ?L / (arcLength ?L)\<^sup>2 else 0)"
      by (simp add: circularity_of_def power2_eq_square)
    show "0 \<le> ?circ" "?circ \<le> 1"
      by (rule circularity_of_contour)+
    then show "?circ = min 1 ?circ"
      by simp
  qed
qed

theorem circularity_in_unit_interval_witness:
  "find_l_shape () \<noteq> [] \<and>
   snd (analyze_morphology find_l_shape (Some ())) ''circularity'' = Some (22434 * pi / 172225) \<and>
   0 \<le> 22434 * pi / 172225 \<and> 22434 * pi / 172225 \<le> 1"
  using circularity_in_unit_interval [of find_l_shape "()"] l_shape_circularity_bounds
  by (simp add: analyze_morphology_l_shape features_of_lookup find_l_shape_def)

end
